theory Spec2Isabelle
  imports Main "HOL-Library.Multiset"
begin

section \<open>The AI controller AIPlayerJH: data model\<close>

text \<open>
  A shallow embedding of the parts of \<^verbatim>\<open>libs/s25main/ai/aijh/AIPlayerJH.cpp\<close> that
  the verified properties are about. World queries of the game engine (building lists,
  path checks, neighbourhoods) are inputs of the modelled functions; commands sent to
  the engine are returned as a list, in the order the code issues them.
\<close>

text \<open>A map point is a pair of unsigned 16-bit coordinates; the invalid point is
  \<^verbatim>\<open>(0xFFFF, 0xFFFF)\<close>.\<close>

type_synonym MapPoint = "nat \<times> nat"

definition MapPoint_Invalid :: MapPoint where
  "MapPoint_Invalid = (65535, 65535)"

definition isValid :: "MapPoint \<Rightarrow> bool" where
  "isValid pt = (pt \<noteq> MapPoint_Invalid)"

text \<open>\<^verbatim>\<open>unsigned\<close> arithmetic is arithmetic modulo \<open>2 ^ 32\<close>.\<close>

definition u32 :: "nat \<Rightarrow> nat" where
  "u32 n = n mod 4294967296"

subsection \<open>Construction: difficulty tiers and cadences\<close>

text \<open>
  \<^verbatim>\<open>AI::Level\<close> has the enumerators Easy, Medium and Hard. A C++ enumeration object can
  hold any value of its underlying type, which is what the \<^verbatim>\<open>default:\<close> branch of the
  constructor's switch is for: \<open>Unsupported n\<close> stands for such a value.
\<close>

datatype Level = Easy | Medium | Hard | Unsupported nat

datatype error = InvalidArgument string

text \<open>The controller's own fields that the modelled functions read or write; \<open>rest\<close>
  holds everything else (node grid, resource maps, job queues). The class declaration is
  not among the sources; \<^verbatim>\<open>isInitGfCompleted\<close> is used as a counter (initialised with
  \<^verbatim>\<open>false\<close>, incremented, compared with 10).\<close>

record 'w AIPlayerJH =
  playerId :: nat
  level :: Level
  attack_interval :: nat
  build_interval :: nat
  isInitGfCompleted :: nat
  defeated :: bool
  rest :: 'w

text \<open>The constructor (lines 163 to 213): the member initialisers, then the switch on the
  level. \<^verbatim>\<open>throw std::invalid_argument\<close> leaves no object behind.\<close>

definition AIPlayerJH_new :: "nat \<Rightarrow> bool \<Rightarrow> Level \<Rightarrow> 'w \<Rightarrow> error + 'w AIPlayerJH" where
  "AIPlayerJH_new pid playerIsDefeated lvl w =
     (let ai = \<lparr>playerId = pid, level = lvl, attack_interval = 0, build_interval = 0,
                isInitGfCompleted = 0, defeated = playerIsDefeated, rest = w\<rparr>
      in case lvl of
           Easy \<Rightarrow> Inr (ai\<lparr>attack_interval := 2500, build_interval := 1000\<rparr>)
         | Medium \<Rightarrow> Inr (ai\<lparr>attack_interval := 750, build_interval := 400\<rparr>)
         | Hard \<Rightarrow> Inr (ai\<lparr>attack_interval := 100, build_interval := 200\<rparr>)
         | Unsupported _ \<Rightarrow> Inl (InvalidArgument ''Invalid AI level!''))"

subsection \<open>The per-tick entry point RunGF\<close>

text \<open>What one call of \<^verbatim>\<open>RunGF\<close> reads from its arguments and from the engine.\<close>

record tick =
  gf :: nat
  gfisnwf :: bool
  numStorehouses :: nat
  numMilitaryBuildings :: nat

text \<open>Commands to the engine. \<^verbatim>\<open>aii.Surrender()\<close> is called in \<^verbatim>\<open>TestDefeat\<close> only,
  \<^verbatim>\<open>aii.Chat\<close> in \<^verbatim>\<open>TestDefeat\<close> and \<^verbatim>\<open>RunGF\<close> only; \<open>Cmd c\<close> is a command issued by
  one of the subsystems.\<close>

datatype 'c Command = Surrender | Chat string | Cmd 'c

text \<open>The subsystems \<^verbatim>\<open>RunGF\<close> calls, in the order of the source. A step stands for the
  call together with a test the source makes on the engine's state just around it: the
  update of the outdated building qualities does nothing when none is outdated, the sea
  attack is tried only when the sea attack addon is enabled.\<close>

datatype Step =
    InitStoreAndMilitarylists | InitDistribution
  | UpdateOutdatedBQ | BldPlannerUpdate | ConstructionsExecuted
  | UpdateBuildingsWanted | ExecuteAIJobStep
  | TryToAttackStep | MilUpgradeOptim | TrySeaAttack
  | CheckExpeditions | CheckForester | CheckGranitMine
  | AdjustSettings | DestroyUselessSawmills
  | CheckForUnconnectedBuildingSites | PlanNewBuildings

text \<open>\<^verbatim>\<open>TestDefeat\<close> (lines 388 to 399).\<close>

definition TestDefeat :: "'w AIPlayerJH \<Rightarrow> tick \<Rightarrow> bool \<times> 'w AIPlayerJH \<times> 'c Command list" where
  "TestDefeat ai t =
     (if 10 \<le> isInitGfCompleted ai \<and> numStorehouses t = 0
      then (True, ai\<lparr>defeated := True\<rparr>, [Surrender, Chat ''You win''])
      else (False, ai, []))"

text \<open>The calls of lines 241 to 307 that the tick \<open>gf\<close> makes, for the controller's player
  id and cadences. \<^verbatim>\<open>gf\<close> is \<^verbatim>\<open>unsigned\<close>, \<^verbatim>\<open>playerId\<close> an \<^verbatim>\<open>unsigned char\<close>: the
  sums are taken modulo \<open>2 ^ 32\<close>.\<close>

definition RunGF_steps :: "'w AIPlayerJH \<Rightarrow> nat \<Rightarrow> bool \<Rightarrow> Step list" where
  "RunGF_steps ai g nwf =
     [UpdateOutdatedBQ, BldPlannerUpdate]
     @ (if nwf then [ConstructionsExecuted] else [])
     @ (if g mod 100 = 0 then [UpdateBuildingsWanted] else [])
     @ [ExecuteAIJobStep]
     @ (if u32 (g + playerId ai * 17) mod attack_interval ai = 0 then [TryToAttackStep] else [])
     @ (if u32 (g + playerId ai * 17) mod 73 = 0 \<and> level ai \<noteq> Easy
        then [MilUpgradeOptim] else [])
     @ (if u32 (g + 41 + playerId ai * 17) mod attack_interval ai = 0 then [TrySeaAttack] else [])
     @ (if u32 (g + playerId ai * 13) mod 1500 = 0
        then [CheckExpeditions, CheckForester, CheckGranitMine] else [])
     @ (if u32 (g + playerId ai * 11) mod 150 = 0
        then [AdjustSettings, DestroyUselessSawmills] else [])
     @ (if u32 (g + playerId ai * 7) mod build_interval ai = 0
        then [CheckForUnconnectedBuildingSites, PlanNewBuildings] else [])"








text \<open>Running subsystems one after the other; \<open>run\<close> is the subsystem's effect on the rest
  of the controller state and the commands it issues.\<close>

fun run_steps :: "(Step \<Rightarrow> tick \<Rightarrow> 'w \<Rightarrow> 'w \<times> 'c list) \<Rightarrow> tick \<Rightarrow> Step list \<Rightarrow> 'w
    \<Rightarrow> 'w \<times> 'c Command list" where
  "run_steps run t [] w = (w, [])"
| "run_steps run t (s # ss) w =
     (let (w1, c1) = run s t w; (w2, c2) = run_steps run t ss w1 in (w2, map Cmd c1 @ c2))"

text \<open>\<^verbatim>\<open>RunGF\<close> (lines 218 to 308): the new controller state and the commands issued.\<close>

definition RunGF :: "(Step \<Rightarrow> tick \<Rightarrow> 'w \<Rightarrow> 'w \<times> 'c list) \<Rightarrow> 'w AIPlayerJH \<Rightarrow> tick
    \<Rightarrow> 'w AIPlayerJH \<times> 'c Command list" where
  "RunGF run ai t =
     (if defeated ai then (ai, [])
      else
        let (d, ai1, c0) = TestDefeat ai t in
        if d then (ai1, c0)
        else
          let (w1, c1) =
                (if isInitGfCompleted ai1 = 0
                 then run_steps run t [InitStoreAndMilitarylists, InitDistribution] (rest ai1)
                 else (rest ai1, []))
          in
          if isInitGfCompleted ai1 < 10
          then (ai1\<lparr>isInitGfCompleted := isInitGfCompleted ai1 + 1, rest := w1\<rparr>, c1)
          else
            let greet =
                  (if gf t = 100 \<and> numMilitaryBuildings t = 0 \<and> numStorehouses t < 2
                   then [Chat ''Hi, I'm an artifical player and I'm not very good yet!'']
                   else []);
                (w2, c2) = run_steps run t (RunGF_steps ai1 (gf t) (gfisnwf t)) w1
            in (ai1\<lparr>rest := w2\<rparr>, c1 @ greet @ c2))"

text \<open>The engine calls \<^verbatim>\<open>RunGF\<close> once per tick: a run over successive ticks.\<close>

fun RunGFs :: "(Step \<Rightarrow> tick \<Rightarrow> 'w \<Rightarrow> 'w \<times> 'c list) \<Rightarrow> 'w AIPlayerJH \<Rightarrow> tick list
    \<Rightarrow> 'w AIPlayerJH \<times> 'c Command list" where
  "RunGFs run ai [] = (ai, [])"
| "RunGFs run ai (t # ts) =
     (let (ai1, c1) = RunGF run ai t; (ai2, c2) = RunGFs run ai1 ts in (ai2, c1 @ c2))"

subsection \<open>Resource classification of a tile\<close>

text \<open>
  Modelled from the spec: the enumerations \<^verbatim>\<open>AISurfaceResource\<close>, \<^verbatim>\<open>AISubSurfaceResource\<close>
  and \<^verbatim>\<open>AINodeResource\<close> and the two overloads of \<^verbatim>\<open>convertToNodeResource\<close> are declared
  in \<^verbatim>\<open>AIResource.h\<close>, which is not among the sources. The surface enumerators are those
  of the exhaustive switch in \<^verbatim>\<open>CalcResource\<close>; the sub-surface ones are the mine resources
  and fish named by \<^verbatim>\<open>isUnlimitedResource\<close>; a conversion yields the node resource class
  of the same name (the "more specific class" of the spec).
\<close>

datatype AISurfaceResource = SurfWood | SurfStones | SurfBlocked | SurfNothing

datatype AISubSurfaceResource = SubGold | SubIronore | SubCoal | SubGranite | SubFish | SubNothing

datatype AINodeResource =
    Wood | Stones | Gold | Ironore | Coal | Granite | Plantspace | Borderland | Fish
  | Multiple | Blocked | Nothing

fun convertSurfaceToNodeResource :: "AISurfaceResource \<Rightarrow> AINodeResource" where
  "convertSurfaceToNodeResource SurfWood = Wood"
| "convertSurfaceToNodeResource SurfStones = Stones"
| "convertSurfaceToNodeResource SurfBlocked = Blocked"
| "convertSurfaceToNodeResource SurfNothing = Nothing"

fun convertSubSurfaceToNodeResource :: "AISubSurfaceResource \<Rightarrow> AINodeResource" where
  "convertSubSurfaceToNodeResource SubGold = Gold"
| "convertSubSurfaceToNodeResource SubIronore = Ironore"
| "convertSubSurfaceToNodeResource SubCoal = Coal"
| "convertSubSurfaceToNodeResource SubGranite = Granite"
| "convertSubSurfaceToNodeResource SubFish = Fish"
| "convertSubSurfaceToNodeResource SubNothing = Nothing"

text \<open>What \<^verbatim>\<open>CalcResource\<close> asks the engine about a point.\<close>

record TileQueries =
  GetSubsurfaceResource :: "MapPoint \<Rightarrow> AISubSurfaceResource"
  GetSurfaceResource :: "MapPoint \<Rightarrow> AISurfaceResource"
  IsOnRoad :: "MapPoint \<Rightarrow> bool"
  IsOfVitalTerrain :: "MapPoint \<Rightarrow> bool"

text \<open>\<^verbatim>\<open>CalcResource\<close> (lines 514 to 545).\<close>

definition CalcResource :: "TileQueries \<Rightarrow> MapPoint \<Rightarrow> AINodeResource" where
  "CalcResource gwb pt =
     (let subRes = GetSubsurfaceResource gwb pt;
          surfRes = GetSurfaceResource gwb pt
      in if subRes = SubNothing
         then (if surfRes = SurfNothing
               then (if IsOnRoad gwb pt then Nothing
                     else if \<not> IsOfVitalTerrain gwb pt then Nothing
                     else Plantspace)
               else convertSurfaceToNodeResource surfRes)
         else (case surfRes of
                 SurfStones \<Rightarrow> Multiple
               | SurfWood \<Rightarrow> Multiple
               | SurfBlocked \<Rightarrow> Nothing
               | SurfNothing \<Rightarrow> convertSubSurfaceToNodeResource subRes))"

subsection \<open>Events and jobs: ExecuteAIJob\<close>

text \<open>The events the notification handlers of lines 47 to 112 create: a type tag, the
  position, and for the building, resource and direction events a payload (here its
  number).\<close>

datatype EventType =
    BuildingFinished | BuildingDestroyed | BuildingConquered | BuildingLost | LostLand
  | NoMoreResourcesReachable | LuaConstructionOrder | ExpeditionWaiting | NewColonyFounded
  | ResourceFound | RoadConstructionComplete | RoadConstructionFailed | ShipBuilt

datatype AIEvent =
    Building EventType MapPoint nat
  | Location EventType MapPoint
  | Resource EventType MapPoint nat
  | Direction EventType MapPoint nat

text \<open>
  Modelled from the spec: the class \<^verbatim>\<open>AIEventManager\<close> is not among the sources. The spec
  describes the event queue as a FIFO: \<^verbatim>\<open>AddAIEvent\<close> appends at the back,
  \<^verbatim>\<open>GetEvent\<close> removes and returns the front, \<^verbatim>\<open>EventAvailable\<close> tells whether the queue is
  non-empty. \<^verbatim>\<open>GetEvent\<close> is only called on a non-empty queue.
\<close>

definition AddAIEvent :: "'e \<Rightarrow> 'e list \<Rightarrow> 'e list" where
  "AddAIEvent ev q = q @ [ev]"

definition EventAvailable :: "'e list \<Rightarrow> bool" where
  "EventAvailable q = (q \<noteq> [])"

definition GetEvent :: "'e list \<Rightarrow> 'e \<times> 'e list" where
  "GetEvent q = (hd q, tl q)"

text \<open>The event loop of \<^verbatim>\<open>ExecuteAIJob\<close> (lines 700 to 707). \<open>exec ev\<close> is the effect of
  \<^verbatim>\<open>EventJob(*this, ev).ExecuteJob()\<close> on the controller state other than the event queue:
  the event handlers of this file never touch \<^verbatim>\<open>eventManager\<close>.\<close>

fun handleEvents :: "('e \<Rightarrow> 's \<Rightarrow> 's) \<Rightarrow> nat \<Rightarrow> 'e list \<Rightarrow> 's \<Rightarrow> 'e list \<times> 's" where
  "handleEvents exec quota q s =
     (if EventAvailable q \<and> quota \<noteq> 0
      then (let quota' = quota - 1;
                (ev, q') = GetEvent q
            in handleEvents exec quota' q' (exec ev s))
      else (q, s))"

declare handleEvents.simps [simp del]

text \<open>Successive calls of the event loop, one per tick; before each call the events that
  arrived since the last one have been added to the queue.\<close>

fun handleEventsTicks :: "('e \<Rightarrow> 's \<Rightarrow> 's) \<Rightarrow> 'e list list \<Rightarrow> 'e list \<Rightarrow> 's \<Rightarrow> 'e list \<times> 's" where
  "handleEventsTicks exec [] q s = (q, s)"
| "handleEventsTicks exec (arrived # later) q s =
     (let (q', s') = handleEvents exec 10 (fold AddAIEvent arrived q) s
      in handleEventsTicks exec later q' s')"

text \<open>
  Modelled from the spec: \<^verbatim>\<open>AIConstruction\<close> and the job classes are not among the sources.
  The spec describes two ordered queues of jobs (construction jobs, connection jobs), each
  job a state machine; \<^verbatim>\<open>ExecuteJobs(quota)\<close> advances up to \<open>quota\<close> jobs per call, front
  of the queue first, and a job that reaches Done or Failed is removed from its queue.
  The spec does not say which queue is served first; here the construction jobs are.
  \<open>step\<close> is one advance of a job's state machine; the second component of the result
  counts the jobs advanced.
\<close>

datatype JobState = Initial | SearchingPosition | PlacingSite | ConnectingRoad | Done | Failed

record 'a Job =
  state :: JobState
  jobTarget :: 'a

record ('a, 'w) AIConstruction =
  buildJobs :: "'a Job list"
  connectJobs :: "'a Job list"
  others :: 'w

fun executeQueue :: "('a Job \<Rightarrow> 'a Job) \<Rightarrow> nat \<Rightarrow> 'a Job list \<Rightarrow> 'a Job list \<times> nat" where
  "executeQueue step 0 js = (js, 0)"
| "executeQueue step (Suc n) [] = ([], 0)"
| "executeQueue step (Suc n) (j # js) =
     (let j' = step j;
          (js', k) = executeQueue step n js
      in (if state j' = Done \<or> state j' = Failed then js' else j' # js', Suc k))"

definition ExecuteJobs :: "('a Job \<Rightarrow> 'a Job) \<Rightarrow> nat \<Rightarrow> ('a, 'w) AIConstruction
    \<Rightarrow> ('a, 'w) AIConstruction \<times> nat" where
  "ExecuteJobs step quota con =
     (let (bs, k1) = executeQueue step quota (buildJobs con);
          (cs, k2) = executeQueue step (quota - k1) (connectJobs con)
      in (con\<lparr>buildJobs := bs, connectJobs := cs\<rparr>, k1 + k2))"

text \<open>The quota of lines 710 to 712: the two list sizes are added and the sum is stored in
  an \<^verbatim>\<open>unsigned\<close>.\<close>

definition jobQuota :: "nat \<Rightarrow> nat \<Rightarrow> nat" where
  "jobQuota nStorehouses nMilitary =
     (let quota = u32 ((nStorehouses + nMilitary) * 1)
      in if quota > 40 then 40 else quota)"

text \<open>\<^verbatim>\<open>ExecuteAIJob\<close> (lines 677 to 728): the remaining events, the new state and the number
  of jobs advanced.\<close>

definition ExecuteAIJob :: "('e \<Rightarrow> ('a, 'w) AIConstruction \<Rightarrow> ('a, 'w) AIConstruction)
    \<Rightarrow> ('a Job \<Rightarrow> 'a Job) \<Rightarrow> nat \<Rightarrow> nat \<Rightarrow> 'e list \<Rightarrow> ('a, 'w) AIConstruction
    \<Rightarrow> 'e list \<times> ('a, 'w) AIConstruction \<times> nat" where
  "ExecuteAIJob exec step nStorehouses nMilitary events con =
     (let (events', con1) = handleEvents exec 10 events con;
          quota = jobQuota nStorehouses nMilitary
      in (events', ExecuteJobs step quota con1))"

subsection \<open>Land attacks: TryToAttack\<close>

text \<open>What \<^verbatim>\<open>TryToAttack\<close> reads of a military building (\<^verbatim>\<open>nobBaseMilitary\<close>: a military
  building proper, a headquarters or a harbour). The fields that only \<^verbatim>\<open>nobMilitary\<close>
  has are read by the code only after a test of the object type. Two objects are the same
  (pointer equality in the code) when their records are equal.\<close>

datatype GO_Type = NobMilitary | NobHQ | NobHarborBuilding

datatype FrontierDistance = Far | Mid | Near | Harbor

record nobBaseMilitary =
  GetPos :: MapPoint
  GetPlayer :: nat
  GetGOT :: GO_Type
  IsNewBuilt :: bool
  GetFrontierDistance :: FrontierDistance
  DefendersAvailable :: bool
  GetSoldiersStrength :: nat
  GetNumTroops :: nat
  IsUnderAttack :: bool

text \<open>The queries to the engine. \<^verbatim>\<open>LookForMilitaryBuildings\<close> is always called with radius
  2; \<^verbatim>\<open>GetSoldiersStrengthForAttack\<close> returns the strength and, through its reference
  parameter, the number of attackers; \<^verbatim>\<open>BASE_ATTACKING_DISTANCE\<close> is a constant of
  \<^verbatim>\<open>GameConsts.h\<close>, which is not among the sources.\<close>

record AttackWorld =
  LookForMilitaryBuildings :: "MapPoint \<Rightarrow> nobBaseMilitary list"
  CalcDistance :: "MapPoint \<Rightarrow> MapPoint \<Rightarrow> nat"
  IsPlayerAttackable :: "nat \<Rightarrow> bool"
  IsVisible :: "MapPoint \<Rightarrow> bool"
  GetSoldiersStrengthForAttack :: "nobBaseMilitary \<Rightarrow> MapPoint \<Rightarrow> nat \<times> nat"
  BASE_ATTACKING_DISTANCE :: nat

datatype AttackCommand = Attack MapPoint nat bool

text \<open>The inner loop of lines 1556 to 1574: the buildings near one own building are added
  to the potential targets; the first component counts the headquarters and harbours
  without defenders, which are inserted at the front.\<close>

fun addTargets :: "AttackWorld \<Rightarrow> MapPoint \<Rightarrow> nobBaseMilitary list
    \<Rightarrow> nat \<times> nobBaseMilitary list \<Rightarrow> nat \<times> nobBaseMilitary list" where
  "addTargets w src [] acc = acc"
| "addTargets w src (target # buildings) (hq, pts) =
     addTargets w src buildings
       (if target \<in> set pts then (hq, pts)
        else if GetGOT target = NobMilitary \<and> IsNewBuilt target then (hq, pts)
        else
          let dest = GetPos target in
          if CalcDistance w src dest < BASE_ATTACKING_DISTANCE w
             \<and> IsPlayerAttackable w (GetPlayer target) \<and> IsVisible w dest
          then (if GetGOT target \<noteq> NobMilitary \<and> \<not> DefendersAvailable target
                then (hq + 1, target # pts)
                else (hq, pts @ [target]))
          else (hq, pts))"

text \<open>The outer loop of lines 1541 to 1575 over the own military buildings. \<open>rnd i\<close> is
  the value of the \<open>i\<close>-th call of \<^verbatim>\<open>rand()\<close>, \<open>numMilBlds\<close> the number of own military
  buildings; the loop body runs only when there is a building, so the modulus is not
  zero.\<close>

fun gatherTargets :: "AttackWorld \<Rightarrow> nat \<Rightarrow> (nat \<Rightarrow> nat) \<Rightarrow> nat \<Rightarrow> nobBaseMilitary list
    \<Rightarrow> nat \<times> nobBaseMilitary list \<Rightarrow> nat \<times> nobBaseMilitary list" where
  "gatherTargets w numMilBlds rnd i [] acc = acc"
| "gatherTargets w numMilBlds rnd i (milBld # milBlds) acc =
     gatherTargets w numMilBlds rnd (i + 1) milBlds
       (if rnd i mod numMilBlds > 40 then acc
        else if GetFrontierDistance milBld = Far then acc
        else addTargets w (GetPos milBld) (LookForMilitaryBuildings w (GetPos milBld)) acc)"

text \<open>The potential targets in the order in which the attack loop visits them:
  \<^verbatim>\<open>std::shuffle\<close> permutes the part behind the undefended headquarters and harbours;
  \<open>shuffle\<close> is the permutation it applies.\<close>

definition potentialTargets :: "AttackWorld \<Rightarrow> nobBaseMilitary list \<Rightarrow> (nat \<Rightarrow> nat)
    \<Rightarrow> (nobBaseMilitary list \<Rightarrow> nobBaseMilitary list) \<Rightarrow> nobBaseMilitary list" where
  "potentialTargets w militaryBuildings rnd shuffle =
     (let (hq, pts) = gatherTargets w (length militaryBuildings) rnd 0 militaryBuildings (0, [])
      in take hq pts @ shuffle (drop hq pts))"

text \<open>Lines 1586 to 1603: the attackers and their strength that the own buildings near
  \<open>dest\<close> contribute, as (count, strength); both are \<^verbatim>\<open>unsigned\<close>.\<close>

fun tallyAttackers :: "AttackWorld \<Rightarrow> nat \<Rightarrow> MapPoint \<Rightarrow> nobBaseMilitary list
    \<Rightarrow> nat \<times> nat \<Rightarrow> nat \<times> nat" where
  "tallyAttackers w pid dest [] acc = acc"
| "tallyAttackers w pid dest (otherMilBld # myBuildings) (attackersCount, attackersStrength) =
     tallyAttackers w pid dest myBuildings
       (if GetPlayer otherMilBld = pid
        then (if GetGOT otherMilBld \<noteq> NobMilitary \<or> IsUnderAttack otherMilBld
              then (attackersCount, attackersStrength)
              else
                let (strength, newAttackers) = GetSoldiersStrengthForAttack w otherMilBld dest
                in (u32 (attackersCount + newAttackers), u32 (attackersStrength + strength)))
        else (attackersCount, attackersStrength))"

definition attackersFor :: "AttackWorld \<Rightarrow> nat \<Rightarrow> nobBaseMilitary \<Rightarrow> nat \<times> nat" where
  "attackersFor w pid target =
     tallyAttackers w pid (GetPos target) (LookForMilitaryBuildings w (GetPos target)) (0, 0)"

text \<open>The loop of lines 1582 to 1617 over the potential targets: the commands issued.\<close>

fun attackFirst :: "Level \<Rightarrow> AttackWorld \<Rightarrow> nat \<Rightarrow> nobBaseMilitary list \<Rightarrow> AttackCommand list" where
  "attackFirst lvl w pid [] = []"
| "attackFirst lvl w pid (target # targets) =
     (let dest = GetPos target;
          (attackersCount, attackersStrength) = attackersFor w pid target
      in if attackersCount = 0 then attackFirst lvl w pid targets
         else if lvl = Hard \<and> GetGOT target = NobMilitary
                 \<and> (attackersStrength \<le> GetSoldiersStrength target \<or> GetNumTroops target = 0)
         then attackFirst lvl w pid targets
         else [Attack dest attackersCount True])"

text \<open>\<^verbatim>\<open>TryToAttack\<close> (lines 1531 to 1618).\<close>

definition TryToAttack :: "Level \<Rightarrow> AttackWorld \<Rightarrow> nat \<Rightarrow> nobBaseMilitary list \<Rightarrow> (nat \<Rightarrow> nat)
    \<Rightarrow> (nobBaseMilitary list \<Rightarrow> nobBaseMilitary list) \<Rightarrow> AttackCommand list" where
  "TryToAttack lvl w pid militaryBuildings rnd shuffle =
     attackFirst lvl w pid (potentialTargets w militaryBuildings rnd shuffle)"

text \<open>The test a target passes in the attack loop, for a given tally of attackers.\<close>

definition worthAttacking :: "Level \<Rightarrow> AttackWorld \<Rightarrow> nat \<Rightarrow> nobBaseMilitary \<Rightarrow> bool" where
  "worthAttacking lvl w pid target =
     (0 < fst (attackersFor w pid target)
      \<and> (if lvl = Hard \<and> GetGOT target = NobMilitary
         then GetSoldiersStrength target < snd (attackersFor w pid target)
              \<and> 0 < GetNumTroops target
         else True))"

text \<open>The test of the claim as the spec words it: a positive attacker count and, on the
  hardest level for military buildings, more attacker strength than defender strength.\<close>

definition worthAttacking_spec :: "Level \<Rightarrow> AttackWorld \<Rightarrow> nat \<Rightarrow> nobBaseMilitary \<Rightarrow> bool" where
  "worthAttacking_spec lvl w pid target =
     (0 < fst (attackersFor w pid target)
      \<and> (if lvl = Hard \<and> GetGOT target = NobMilitary
         then GetSoldiersStrength target < snd (attackersFor w pid target)
         else True))"
text \<open>A scene for the attack evaluation: player 0 owns one military building near the
  border; next to it stands a military building of player 1 that holds no troops.\<close>

definition sceneOwn :: nobBaseMilitary where
  "sceneOwn = \<lparr>GetPos = (1, 1), GetPlayer = 0, GetGOT = NobMilitary, IsNewBuilt = False,
     GetFrontierDistance = Near, DefendersAvailable = True, GetSoldiersStrength = 4,
     GetNumTroops = 3, IsUnderAttack = False\<rparr>"

definition sceneEnemy :: nobBaseMilitary where
  "sceneEnemy = \<lparr>GetPos = (2, 2), GetPlayer = 1, GetGOT = NobMilitary, IsNewBuilt = False,
     GetFrontierDistance = Near, DefendersAvailable = False, GetSoldiersStrength = 0,
     GetNumTroops = 0, IsUnderAttack = False\<rparr>"

definition sceneWorld :: AttackWorld where
  "sceneWorld = \<lparr>LookForMilitaryBuildings = (\<lambda>pt. [sceneOwn, sceneEnemy]),
     CalcDistance = (\<lambda>a b. 2), IsPlayerAttackable = (\<lambda>p. p = 1), IsVisible = (\<lambda>pt. True),
     GetSoldiersStrengthForAttack = (\<lambda>bld dest. (3, 2)), BASE_ATTACKING_DISTANCE = 21\<rparr>"


subsection \<open>Goods distribution: DistributeGoodsByBlocking\<close>

text \<open>What the function reads of a warehouse, for goods of type \<open>'g\<close>: its position, the
  visual number of wares and whether the inventory setting of a good has the flag
  \<^verbatim>\<open>EInventorySetting::Stop\<close>, that is, whether the good is blocked there.\<close>

record 'g nobBaseWarehouse =
  whPos :: MapPoint
  GetNumVisualWares :: "'g \<Rightarrow> nat"
  IsStopped :: "'g \<Rightarrow> bool"

text \<open>
  Modelled from the spec: \<^verbatim>\<open>InventorySetting::Toggle\<close> is not among the sources. The
  command \<^verbatim>\<open>SetInventorySetting(pos, good, setting.Toggle(Stop))\<close> is modelled by the value
  of the Stop flag it sets, the negation of the current one; the engine applies the
  commands in the order they were issued.
\<close>

datatype 'g InventoryCommand = SetInventorySetting MapPoint 'g bool

definition ToggleStop :: "'g nobBaseWarehouse \<Rightarrow> 'g \<Rightarrow> bool" where
  "ToggleStop wh good = (\<not> IsStopped wh good)"

fun applyCommands :: "'g InventoryCommand list \<Rightarrow> 'g nobBaseWarehouse \<Rightarrow> 'g nobBaseWarehouse" where
  "applyCommands [] wh = wh"
| "applyCommands (SetInventorySetting pos good stop # cmds) wh =
     applyCommands cmds
       (if pos = whPos wh then wh\<lparr>IsStopped := (IsStopped wh)(good := stop)\<rparr> else wh)"

text \<open>The two command patterns of the function: unblock a warehouse that is blocked,
  block one that is not.\<close>

definition unblock :: "'g \<Rightarrow> 'g nobBaseWarehouse \<Rightarrow> 'g InventoryCommand list" where
  "unblock good wh =
     (if IsStopped wh good then [SetInventorySetting (whPos wh) good (ToggleStop wh good)] else [])"

definition block :: "'g \<Rightarrow> 'g nobBaseWarehouse \<Rightarrow> 'g InventoryCommand list" where
  "block good wh =
     (if \<not> IsStopped wh good then [SetInventorySetting (whPos wh) good (ToggleStop wh good)] else [])"

text \<open>Lines 748 to 765: a warehouse joins the first group to whose first member a road path
  exists (\<^verbatim>\<open>aii.FindPathOnRoads\<close>), or else opens a new group at the end. A group is never
  empty.\<close>

fun joinGroup :: "('w \<Rightarrow> 'w \<Rightarrow> bool) \<Rightarrow> 'w \<Rightarrow> 'w list list \<Rightarrow> 'w list list" where
  "joinGroup FindPathOnRoads wh [] = [[wh]]"
| "joinGroup FindPathOnRoads wh (whGroup # groups) =
     (if FindPathOnRoads wh (hd whGroup) then (whGroup @ [wh]) # groups
      else whGroup # joinGroup FindPathOnRoads wh groups)"

definition whsByReachability :: "('w \<Rightarrow> 'w \<Rightarrow> bool) \<Rightarrow> 'w list \<Rightarrow> 'w list list" where
  "whsByReachability FindPathOnRoads storehouses =
     fold (joinGroup FindPathOnRoads) storehouses []"

text \<open>Lines 770 to 808: the commands for one group.\<close>

definition balanceGroup :: "'g \<Rightarrow> nat \<Rightarrow> 'g nobBaseWarehouse list \<Rightarrow> 'g InventoryCommand list" where
  "balanceGroup good limit whGroup =
     (let allWHsHaveLimit = list_all (\<lambda>wh. \<not> GetNumVisualWares wh good \<le> limit) whGroup
      in if allWHsHaveLimit then concat (map (unblock good) whGroup)
         else concat (map (\<lambda>wh. if GetNumVisualWares wh good \<le> limit then unblock good wh
                                 else block good wh) whGroup))"

text \<open>\<^verbatim>\<open>DistributeGoodsByBlocking\<close> (lines 730 to 810); \<open>numHarbors\<close> is
  \<^verbatim>\<open>aii.GetHarbors().size()\<close>.\<close>

definition DistributeGoodsByBlocking :: "nat \<Rightarrow> 'g nobBaseWarehouse list
    \<Rightarrow> ('g nobBaseWarehouse \<Rightarrow> 'g nobBaseWarehouse \<Rightarrow> bool) \<Rightarrow> 'g \<Rightarrow> nat
    \<Rightarrow> 'g InventoryCommand list" where
  "DistributeGoodsByBlocking numHarbors storehouses FindPathOnRoads good limit =
     (if numHarbors \<ge> length storehouses div 2
      then concat (map (unblock good) storehouses)
      else concat (map (balanceGroup good limit) (whsByReachability FindPathOnRoads storehouses)))"

text \<open>Whether a warehouse is blocked for the good once the commands have been applied.\<close>

definition blockedAfter :: "'g InventoryCommand list \<Rightarrow> 'g \<Rightarrow> 'g nobBaseWarehouse \<Rightarrow> bool" where
  "blockedAfter cmds good wh = IsStopped (applyCommands cmds wh) good"

text \<open>A scene for the goods distribution: two warehouses joined by roads, both holding
  more boards than the limit of 30 and both blocked; and a third one with few boards.\<close>

definition sceneWhA :: "string nobBaseWarehouse" where
  "sceneWhA = \<lparr>whPos = (1, 1), GetNumVisualWares = (\<lambda>g. 100), IsStopped = (\<lambda>g. True)\<rparr>"

definition sceneWhB :: "string nobBaseWarehouse" where
  "sceneWhB = \<lparr>whPos = (5, 5), GetNumVisualWares = (\<lambda>g. 60), IsStopped = (\<lambda>g. True)\<rparr>"

definition sceneWhC :: "string nobBaseWarehouse" where
  "sceneWhC = \<lparr>whPos = (9, 9), GetNumVisualWares = (\<lambda>g. 10), IsStopped = (\<lambda>g. True)\<rparr>"


subsection \<open>Resource maps: site search and avoided positions\<close>

text \<open>
  Modelled from the spec: the class \<^verbatim>\<open>AIResourceMap\<close> is not among the sources. The spec
  describes a resource map as a scalar field over the grid plus a set of positions to
  avoid; \<^verbatim>\<open>avoidPosition(pt)\<close> marks a tile as excluded; \<^verbatim>\<open>updateAround(pt, radius)\<close>
  recomputes the scalar field in the area; \<^verbatim>\<open>findBestPosition(anchor, size, radius,
  minimum)\<close> scans the tiles in the radius that are compatible with the building size,
  excludes the avoided ones, and returns the highest-scoring tile that meets the minimum,
  or the invalid position. \<open>pts\<close> are the points in the radius around the anchor,
  \<open>fits\<close> tells whether a tile is compatible with the building size, \<open>recompute\<close> gives
  the refreshed values.
\<close>

record AIResourceMap =
  resValue :: "MapPoint \<Rightarrow> int"
  avoided :: "MapPoint \<Rightarrow> bool"

definition avoidPosition :: "MapPoint \<Rightarrow> AIResourceMap \<Rightarrow> AIResourceMap" where
  "avoidPosition pt m = m\<lparr>avoided := (avoided m)(pt := True)\<rparr>"

definition updateAround :: "(MapPoint \<Rightarrow> int) \<Rightarrow> MapPoint list \<Rightarrow> AIResourceMap \<Rightarrow> AIResourceMap" where
  "updateAround recompute pts m =
     m\<lparr>resValue := (\<lambda>pt. if pt \<in> set pts then recompute pt else resValue m pt)\<rparr>"

definition findBestPosition :: "AIResourceMap \<Rightarrow> MapPoint list \<Rightarrow> (MapPoint \<Rightarrow> bool) \<Rightarrow> int
    \<Rightarrow> MapPoint" where
  "findBestPosition m pts fits minimum =
     fold (\<lambda>pt best.
             if fits pt \<and> \<not> avoided m pt \<and> minimum \<le> resValue m pt
                \<and> (best = MapPoint_Invalid \<or> resValue m best < resValue m pt)
             then pt else best)
       pts MapPoint_Invalid"

text \<open>\<^verbatim>\<open>AIPlayerJH::FindBestPosition\<close> (lines 670 to 675), for the map of one resource: the
  position found and the refreshed map.\<close>

definition FindBestPosition :: "(MapPoint \<Rightarrow> int) \<Rightarrow> AIResourceMap \<Rightarrow> MapPoint list
    \<Rightarrow> (MapPoint \<Rightarrow> bool) \<Rightarrow> int \<Rightarrow> MapPoint \<times> AIResourceMap" where
  "FindBestPosition recompute m pts fits minimum =
     (let m' = updateAround recompute pts m
      in (findBestPosition m' pts fits minimum, m'))"

text \<open>The quarry case of \<^verbatim>\<open>FindPositionForBuildingAround\<close> (lines 952 to 963); the fishery
  case (lines 987 to 994) has the same shape with \<^verbatim>\<open>ValidFishInRange\<close>.\<close>

definition FindPositionForQuarry :: "(MapPoint \<Rightarrow> int) \<Rightarrow> (MapPoint \<Rightarrow> bool) \<Rightarrow> nat
    \<Rightarrow> AIResourceMap \<Rightarrow> MapPoint list \<Rightarrow> (MapPoint \<Rightarrow> bool) \<Rightarrow> MapPoint \<times> AIResourceMap" where
  "FindPositionForQuarry recompute ValidStoneinRange numQuarries m pts fits =
     (let (foundPos, m') =
            FindBestPosition recompute m pts fits (int (min 40 (u32 (1 + numQuarries * 10))))
      in if isValid foundPos \<and> \<not> ValidStoneinRange foundPos
         then (MapPoint_Invalid, avoidPosition foundPos m')
         else (foundPos, m'))"

text \<open>A map on which every tile is worth 50, and nothing is avoided.\<close>

definition sceneMap :: AIResourceMap where
  "sceneMap = \<lparr>resValue = (\<lambda>pt. 50), avoided = (\<lambda>pt. False)\<rparr>"

subsection \<open>Node grid: reachability\<close>

text \<open>The two fields of a grid node that the reachability flood reads and writes; the
  other fields (building quality, resource, owned, border, farmed) are left alone by it
  and live in the record's extension.\<close>

record Node =
  reachable :: bool
  failed_penalty :: nat

type_synonym AIMap = "MapPoint \<Rightarrow> Node"

text \<open>The points of a map of the given width and height, in the order of
  \<^verbatim>\<open>RTTR_FOREACH_PT\<close>: row by row.\<close>

definition gridPoints :: "nat \<Rightarrow> nat \<Rightarrow> MapPoint list" where
  "gridPoints width height = concat (map (\<lambda>y. map (\<lambda>x. (x, y)) [0..<width]) [0..<height])"

text \<open>The first loop of \<^verbatim>\<open>InitReachableNodes\<close> (lines 552 to 563); \<open>myFlag pt\<close> tells
  whether a flag of this player stands on \<open>pt\<close>.\<close>

fun resetNodes :: "(MapPoint \<Rightarrow> bool) \<Rightarrow> MapPoint list \<Rightarrow> AIMap \<times> MapPoint list
    \<Rightarrow> AIMap \<times> MapPoint list" where
  "resetNodes myFlag [] (aiMap, toCheck) = (aiMap, toCheck)"
| "resetNodes myFlag (pt # pts) (aiMap, toCheck) =
     resetNodes myFlag pts
       (let node = (aiMap pt)\<lparr>reachable := False, failed_penalty := 0\<rparr>
        in if myFlag pt
           then (aiMap(pt := node\<lparr>reachable := True\<rparr>), toCheck @ [pt])
           else (aiMap(pt := node), toCheck))"

text \<open>The loop over the neighbours of a reachable point (lines 579 to 599); \<open>IsNodeOk\<close> is
  the road path condition \<^verbatim>\<open>roadPathChecker.IsNodeOk\<close>.\<close>

fun checkNeighbours :: "(MapPoint \<Rightarrow> bool) \<Rightarrow> MapPoint list \<Rightarrow> AIMap \<times> MapPoint list
    \<Rightarrow> AIMap \<times> MapPoint list" where
  "checkNeighbours IsNodeOk [] (aiMap, toCheck) = (aiMap, toCheck)"
| "checkNeighbours IsNodeOk (curNeighbour # neighbours) (aiMap, toCheck) =
     checkNeighbours IsNodeOk neighbours
       (let node = aiMap curNeighbour
        in if reachable node then (aiMap, toCheck)
           else if IsNodeOk curNeighbour
           then (if failed_penalty node = 0
                 then (aiMap(curNeighbour := node\<lparr>reachable := True\<rparr>), toCheck @ [curNeighbour])
                 else (aiMap(curNeighbour := node\<lparr>failed_penalty := failed_penalty node - 1\<rparr>),
                       toCheck))
           else (aiMap, toCheck))"

text \<open>\<^verbatim>\<open>IterativeReachableNodeChecker\<close> (lines 568 to 602): the loop runs while the queue is
  not empty; the result is \<open>None\<close> when it does not end. \<open>GetNeighbours\<close> are the
  neighbours of a point on the map.\<close>

partial_function (option) IterativeReachableNodeChecker ::
    "(MapPoint \<Rightarrow> bool) \<Rightarrow> (MapPoint \<Rightarrow> MapPoint list) \<Rightarrow> MapPoint list \<Rightarrow> AIMap \<Rightarrow> AIMap option" where
  "IterativeReachableNodeChecker IsNodeOk GetNeighbours toCheck aiMap =
     (case toCheck of
        [] \<Rightarrow> Some aiMap
      | curPt # _ \<Rightarrow>
          (case checkNeighbours IsNodeOk (GetNeighbours curPt) (aiMap, toCheck) of
             (aiMap', toCheck') \<Rightarrow>
               IterativeReachableNodeChecker IsNodeOk GetNeighbours (tl toCheck') aiMap'))"

text \<open>\<^verbatim>\<open>InitReachableNodes\<close> (lines 547 to 566) on a map of the given size.\<close>

definition InitReachableNodes :: "nat \<Rightarrow> nat \<Rightarrow> (MapPoint \<Rightarrow> bool) \<Rightarrow> (MapPoint \<Rightarrow> bool)
    \<Rightarrow> (MapPoint \<Rightarrow> MapPoint list) \<Rightarrow> AIMap \<Rightarrow> AIMap option" where
  "InitReachableNodes width height myFlag IsNodeOk GetNeighbours aiMap =
     (case resetNodes myFlag (gridPoints width height) (aiMap, []) of
        (aiMap', toCheck) \<Rightarrow> IterativeReachableNodeChecker IsNodeOk GetNeighbours toCheck aiMap')"

text \<open>The tiles the claim calls reachable: a tile of the map that holds a flag of the
  player, or a neighbour, satisfying the road path condition, of such a tile.\<close>

inductive roadReachable :: "nat \<Rightarrow> nat \<Rightarrow> (MapPoint \<Rightarrow> bool) \<Rightarrow> (MapPoint \<Rightarrow> bool)
    \<Rightarrow> (MapPoint \<Rightarrow> MapPoint list) \<Rightarrow> MapPoint \<Rightarrow> bool"
  for width height myFlag IsNodeOk GetNeighbours where
  anchor: "pt \<in> set (gridPoints width height) \<Longrightarrow> myFlag pt
    \<Longrightarrow> roadReachable width height myFlag IsNodeOk GetNeighbours pt"
| step: "roadReachable width height myFlag IsNodeOk GetNeighbours pt
    \<Longrightarrow> n \<in> set (GetNeighbours pt) \<Longrightarrow> IsNodeOk n
    \<Longrightarrow> roadReachable width height myFlag IsNodeOk GetNeighbours n"

text \<open>A ring of four tiles in one row, each the neighbour of the next and the one
  before; the map before the flood, with stale values.\<close>

definition ringNeighbours :: "MapPoint \<Rightarrow> MapPoint list" where
  "ringNeighbours pt = [((fst pt + 1) mod 4, 0), ((fst pt + 3) mod 4, 0)]"

definition staleMap :: AIMap where
  "staleMap = (\<lambda>pt. \<lparr>reachable = True, failed_penalty = 3\<rparr>)"

section \<open>Properties\<close>

subsection \<open>Construction\<close>

lemma AIPlayerJH_new_cases:
  "AIPlayerJH_new pid d lvl w =
     (case lvl of
        Easy \<Rightarrow> Inr \<lparr>playerId = pid, level = Easy, attack_interval = 2500, build_interval = 1000,
                     isInitGfCompleted = 0, defeated = d, rest = w\<rparr>
      | Medium \<Rightarrow> Inr \<lparr>playerId = pid, level = Medium, attack_interval = 750, build_interval = 400,
                     isInitGfCompleted = 0, defeated = d, rest = w\<rparr>
      | Hard \<Rightarrow> Inr \<lparr>playerId = pid, level = Hard, attack_interval = 100, build_interval = 200,
                     isInitGfCompleted = 0, defeated = d, rest = w\<rparr>
      | Unsupported n \<Rightarrow> Inl (InvalidArgument ''Invalid AI level!''))"
  by (cases lvl) (simp_all add: AIPlayerJH_new_def)

text \<open>
  Claim C8. Constructing the controller with a level that is none of Easy, Medium and Hard
  throws \<^verbatim>\<open>std::invalid_argument\<close> and yields no controller; each of the three
  supported levels yields a controller with a fixed pair of cadences:
  (2500, 1000), (750, 400) and (100, 200) as (attack interval, build interval).
\<close>

theorem C8_construction_level:
  "AIPlayerJH_new pid d (Unsupported n) w = Inl (InvalidArgument ''Invalid AI level!'')
   \<and> (\<exists>ai. AIPlayerJH_new pid d Easy w = Inr ai
           \<and> attack_interval ai = 2500 \<and> build_interval ai = 1000)
   \<and> (\<exists>ai. AIPlayerJH_new pid d Medium w = Inr ai
           \<and> attack_interval ai = 750 \<and> build_interval ai = 400)
   \<and> (\<exists>ai. AIPlayerJH_new pid d Hard w = Inr ai
           \<and> attack_interval ai = 100 \<and> build_interval ai = 200)
   \<and> ((\<exists>e. AIPlayerJH_new pid d lvl w = Inl e) = (lvl \<notin> {Easy, Medium, Hard}))"
  by (cases lvl) (simp_all add: AIPlayerJH_new_cases)

theorem C8_construction_level_witness:
  "AIPlayerJH_new 3 False (Unsupported 7) () = Inl (InvalidArgument ''Invalid AI level!'')
   \<and> (\<exists>ai. AIPlayerJH_new 3 False Hard () = Inr ai
           \<and> attack_interval ai = 100 \<and> build_interval ai = 200)"
  using C8_construction_level [of 3 False 7 "()" Hard] by simp

subsection \<open>Cadences of the periodic subsystems\<close>













lemma not_100_dvd_2_32: "\<not> (100::nat) dvd 4294967296"
  by simp


















subsection \<open>Defeat\<close>

lemma RunGF_defeated: "defeated ai \<Longrightarrow> RunGF run ai t = (ai, [])"
  by (simp add: RunGF_def)

lemma RunGFs_defeated: "defeated ai \<Longrightarrow> RunGFs run ai ts = (ai, [])"
  by (induction ts) (simp_all add: RunGF_defeated)

lemma RunGF_surrender:
  assumes "\<not> defeated ai" and "10 \<le> isInitGfCompleted ai" and "numStorehouses t = 0"
  shows "RunGF run ai t = (ai\<lparr>defeated := True\<rparr>, [Surrender, Chat ''You win''])"
  using assms by (simp add: RunGF_def TestDefeat_def)

text \<open>
  Claim C10. When a controller that is not yet defeated and has completed its ten
  initialisation ticks is called while the faction has no storehouse, that call issues
  the surrender command (followed by the chat message) and sets the defeated flag.
  Whatever ticks follow, the whole run issues exactly these two commands, so the
  surrender is sent once, and the controller state stays the one reached at the
  surrender; a call on a defeated controller changes nothing and issues nothing.
\<close>

theorem C10_defeat_is_final:
  assumes "\<not> defeated ai" and "10 \<le> isInitGfCompleted ai" and "numStorehouses t = 0"
  shows "RunGF run ai t = (ai\<lparr>defeated := True\<rparr>, [Surrender, Chat ''You win''])
         \<and> RunGFs run ai (t # ts) = (ai\<lparr>defeated := True\<rparr>, [Surrender, Chat ''You win''])
         \<and> count_list (snd (RunGFs run ai (t # ts))) Surrender = 1
         \<and> RunGF run (fst (RunGFs run ai (t # ts))) t' = (fst (RunGFs run ai (t # ts)), [])"
proof -
  let ?ai = "ai\<lparr>defeated := True\<rparr>"
  have one: "RunGF run ai t = (?ai, [Surrender, Chat ''You win''])"
    using assms by (rule RunGF_surrender)
  have later: "RunGFs run ?ai ts = (?ai, [])"
    by (rule RunGFs_defeated) simp
  have run: "RunGFs run ai (t # ts) = (?ai, [Surrender, Chat ''You win''])"
    by (simp add: one later)
  have again: "RunGF run ?ai t' = (?ai, [])"
    by (rule RunGF_defeated) simp
  show ?thesis
    by (simp only: one run fst_conv snd_conv again) simp
qed

theorem C10_defeat_is_final_witness:
  "RunGFs (\<lambda>s t w. (Suc w, [s]))
     \<lparr>playerId = 1, level = Hard, attack_interval = 100, build_interval = 200,
      isInitGfCompleted = 10, defeated = False, rest = 0\<rparr>
     [\<lparr>gf = 500, gfisnwf = False, numStorehouses = 0, numMilitaryBuildings = 2\<rparr>,
      \<lparr>gf = 501, gfisnwf = True, numStorehouses = 1, numMilitaryBuildings = 2\<rparr>]
   = (\<lparr>playerId = 1, level = Hard, attack_interval = 100, build_interval = 200,
       isInitGfCompleted = 10, defeated = True, rest = 0\<rparr>,
      [Surrender, Chat ''You win''])"
proof -
  let ?ai = "\<lparr>playerId = 1, level = Hard, attack_interval = 100, build_interval = 200,
              isInitGfCompleted = 10, defeated = False, rest = 0::nat\<rparr>"
  let ?t = "\<lparr>gf = 500, gfisnwf = False, numStorehouses = 0, numMilitaryBuildings = 2\<rparr>"
  have a: "\<not> defeated ?ai" by simp
  have b: "10 \<le> isInitGfCompleted ?ai" by simp
  have c: "numStorehouses ?t = 0" by simp
  have "RunGFs (\<lambda>s t w. (Suc w, [s])) ?ai
          (?t # [\<lparr>gf = 501, gfisnwf = True, numStorehouses = 1, numMilitaryBuildings = 2\<rparr>])
        = (?ai\<lparr>defeated := True\<rparr>, [Surrender, Chat ''You win''])"
    by (rule conjunct1 [OF conjunct2 [OF C10_defeat_is_final [OF a b c]]])
  then show ?thesis by simp
qed

subsection \<open>Resource classification\<close>

text \<open>A tile with gold below and a blocked surface is classified Nothing, not Gold.\<close>

theorem C5_CalcResource_blocked_counterexample:
  "CalcResource
     \<lparr>GetSubsurfaceResource = (\<lambda>pt. SubGold), GetSurfaceResource = (\<lambda>pt. SurfBlocked),
      IsOnRoad = (\<lambda>pt. False), IsOfVitalTerrain = (\<lambda>pt. True)\<rparr> (3, 4) = Nothing
   \<and> CalcResource
     \<lparr>GetSubsurfaceResource = (\<lambda>pt. SubGold), GetSurfaceResource = (\<lambda>pt. SurfBlocked),
      IsOnRoad = (\<lambda>pt. False), IsOfVitalTerrain = (\<lambda>pt. True)\<rparr> (3, 4)
     \<noteq> convertSubSurfaceToNodeResource SubGold"
  by (simp add: CalcResource_def)

text \<open>
  Claim C5, as amended. \<^verbatim>\<open>CalcResource(pt)\<close> returns: with neither a sub-surface nor a
  surface resource, Plantspace when the tile is of vital terrain and not on a road, and
  Nothing otherwise; with a sub-surface resource and stones or wood on the surface,
  Multiple; with a sub-surface resource and a blocked surface, Nothing; with a sub-surface
  resource and nothing on the surface, the class of the sub-surface resource. (With a
  surface resource only, it returns the class of the surface resource.)
\<close>

theorem C5_CalcResource_classes:
  "CalcResource gwb pt =
     (if GetSubsurfaceResource gwb pt = SubNothing \<and> GetSurfaceResource gwb pt = SurfNothing
      then (if IsOfVitalTerrain gwb pt \<and> \<not> IsOnRoad gwb pt then Plantspace else Nothing)
      else if GetSubsurfaceResource gwb pt = SubNothing
      then convertSurfaceToNodeResource (GetSurfaceResource gwb pt)
      else if GetSurfaceResource gwb pt \<in> {SurfStones, SurfWood} then Multiple
      else if GetSurfaceResource gwb pt = SurfBlocked then Nothing
      else convertSubSurfaceToNodeResource (GetSubsurfaceResource gwb pt))"
  by (cases "GetSurfaceResource gwb pt") (simp_all add: CalcResource_def)

theorem C5_CalcResource_classes_witness:
  "CalcResource
     \<lparr>GetSubsurfaceResource = (\<lambda>pt. if pt = (1, 1) then SubCoal else SubNothing),
      GetSurfaceResource = (\<lambda>pt. if pt = (2, 2) then SurfWood else SurfNothing),
      IsOnRoad = (\<lambda>pt. False), IsOfVitalTerrain = (\<lambda>pt. True)\<rparr> (1, 1) = Coal"
  by (simp add: C5_CalcResource_classes)

subsection \<open>Event loop\<close>

lemma handleEvents_take_drop:
  "handleEvents exec quota q s = (drop quota q, fold exec (take quota q) s)"
proof (induction quota arbitrary: q s)
  case 0
  show ?case by (simp add: handleEvents.simps [of exec 0])
next
  case (Suc n)
  show ?case
  proof (cases q)
    case Nil
    then show ?thesis by (simp add: handleEvents.simps [of exec "Suc n" "[]"] EventAvailable_def)
  next
    case (Cons e r)
    then show ?thesis
      by (simp add: handleEvents.simps [of exec "Suc n" "e # r"] EventAvailable_def GetEvent_def Suc.IH)
  qed
qed

lemma fold_AddAIEvent: "fold AddAIEvent new q = q @ new"
  by (induction new arbitrary: q) (simp_all add: AddAIEvent_def)

lemma handleEventsTicks_fifo:
  "\<exists>d. d @ fst (handleEventsTicks exec arrivals q s) = q @ concat arrivals
      \<and> snd (handleEventsTicks exec arrivals q s) = fold exec d s
      \<and> length d \<le> 10 * length arrivals"
proof (induction arrivals arbitrary: q s)
  case Nil
  show ?case by simp
next
  case (Cons a later)
  let ?q1 = "drop 10 (q @ a)" and ?s1 = "fold exec (take 10 (q @ a)) s"
  from Cons.IH [of ?q1 ?s1] obtain d where
    d: "d @ fst (handleEventsTicks exec later ?q1 ?s1) = ?q1 @ concat later"
       "snd (handleEventsTicks exec later ?q1 ?s1) = fold exec d ?s1"
       "length d \<le> 10 * length later"
    by (elim exE conjE)
  have step: "handleEventsTicks exec (a # later) q s = handleEventsTicks exec later ?q1 ?s1"
    by (simp add: handleEvents_take_drop fold_AddAIEvent)
  let ?d = "take 10 (q @ a) @ d"
  have "?d @ fst (handleEventsTicks exec (a # later) q s) = q @ concat (a # later)"
  proof -
    have "?d @ fst (handleEventsTicks exec (a # later) q s)
        = take 10 (q @ a) @ (?q1 @ concat later)"
      using d(1) by (simp only: step append_assoc)
    also have "\<dots> = (take 10 (q @ a) @ drop 10 (q @ a)) @ concat later"
      by (simp only: append_assoc)
    also have "\<dots> = q @ concat (a # later)"
      by (simp only: append_take_drop_id) simp
    finally show ?thesis .
  qed
  moreover have "snd (handleEventsTicks exec (a # later) q s) = fold exec ?d s"
    using d(2) by (simp only: step fold_append o_apply)
  moreover have "length ?d \<le> 10 * length (a # later)"
    using d(3) by simp
  ultimately show ?case by blast
qed

lemma handleEventsTicks_quiet:
  "handleEventsTicks exec (replicate n []) q s = (drop (10 * n) q, fold exec (take (10 * n) q) s)"
proof (induction n arbitrary: q s)
  case 0
  show ?case by simp
next
  case (Suc n)
  have "take (10 + 10 * n) q = take 10 q @ take (10 * n) (drop 10 q)"
    by (simp add: take_add)
  then show ?case
    by (simp add: handleEvents_take_drop Suc.IH add.commute)
qed

text \<open>
  Claim C1. One run of the event loop of \<^verbatim>\<open>ExecuteAIJob\<close> dispatches the first ten events
  of the queue (all of them when there are fewer), in queue order, and leaves the others
  queued in their order. Over successive calls, with newly arrived events added at the
  back in between, the events dispatched so far followed by the events still queued are
  exactly the events that were queued or arrived, in arrival order, with at most ten
  dispatched per call; without new arrivals \<open>n\<close> calls dispatch the first \<open>10 * n\<close>
  events.
\<close>

theorem C1_event_quota:
  "handleEvents exec 10 q s = (drop 10 q, fold exec (take 10 q) s)
   \<and> length (take 10 q) \<le> 10
   \<and> fst (ExecuteAIJob exec' step nS nM q con) = drop 10 q
   \<and> (\<exists>d. d @ fst (handleEventsTicks exec arrivals q s) = q @ concat arrivals
          \<and> snd (handleEventsTicks exec arrivals q s) = fold exec d s
          \<and> length d \<le> 10 * length arrivals)
   \<and> handleEventsTicks exec (replicate n []) q s
       = (drop (10 * n) q, fold exec (take (10 * n) q) s)"
proof -
  have "fst (ExecuteAIJob exec' step nS nM q con) = drop 10 q"
    by (simp add: ExecuteAIJob_def handleEvents_take_drop)
  then show ?thesis
    using handleEvents_take_drop [of exec 10 q s] handleEventsTicks_fifo [of exec arrivals q s]
      handleEventsTicks_quiet [of exec n q s]
    by simp
qed

theorem C1_event_quota_witness:
  "handleEvents (\<lambda>ev log. log @ [ev]) 10
     [Resource ResourceFound (1, 1) 0, Resource ResourceFound (2, 1) 1,
      Resource ResourceFound (3, 1) 2, Resource ResourceFound (4, 1) 3,
      Resource ResourceFound (5, 1) 4] []
   = ([], [Resource ResourceFound (1, 1) 0, Resource ResourceFound (2, 1) 1,
           Resource ResourceFound (3, 1) 2, Resource ResourceFound (4, 1) 3,
           Resource ResourceFound (5, 1) 4])"
proof -
  have "handleEvents (\<lambda>ev log. log @ [ev]) 10
     [Resource ResourceFound (1, 1) 0, Resource ResourceFound (2, 1) 1,
      Resource ResourceFound (3, 1) 2, Resource ResourceFound (4, 1) 3,
      Resource ResourceFound (5, 1) 4] []
    = (drop 10 [Resource ResourceFound (1, 1) 0, Resource ResourceFound (2, 1) 1,
      Resource ResourceFound (3, 1) 2, Resource ResourceFound (4, 1) 3,
      Resource ResourceFound (5, 1) 4],
       fold (\<lambda>ev log. log @ [ev]) (take 10 [Resource ResourceFound (1, 1) 0,
      Resource ResourceFound (2, 1) 1, Resource ResourceFound (3, 1) 2,
      Resource ResourceFound (4, 1) 3, Resource ResourceFound (5, 1) 4]) [])"
    by (rule conjunct1 [OF C1_event_quota])
  then show ?thesis by simp
qed

subsection \<open>Job quota\<close>

lemma executeQueue_count: "snd (executeQueue step n js) \<le> n"
  by (induction step n js rule: executeQueue.induct) (auto simp: Let_def split: prod.splits)

lemma ExecuteJobs_count: "snd (ExecuteJobs step quota con) \<le> quota"
proof -
  obtain bs k1 where b: "executeQueue step quota (buildJobs con) = (bs, k1)"
    by (cases "executeQueue step quota (buildJobs con)")
  obtain cs k2 where c: "executeQueue step (quota - k1) (connectJobs con) = (cs, k2)"
    by (cases "executeQueue step (quota - k1) (connectJobs con)")
  from executeQueue_count [of step quota "buildJobs con"] b have "k1 \<le> quota" by simp
  moreover from executeQueue_count [of step "quota - k1" "connectJobs con"] c
  have "k2 \<le> quota - k1" by simp
  ultimately show ?thesis by (simp add: ExecuteJobs_def b c)
qed

lemma jobQuota_min: "jobQuota nS nM = min 40 (u32 (nS + nM))"
  by (simp add: jobQuota_def Let_def min_def)

text \<open>
  Claim C2. \<^verbatim>\<open>ExecuteAIJob\<close> passes to the job executor the number of storehouses plus the
  number of military buildings (as an \<^verbatim>\<open>unsigned\<close>), capped at 40, after the event loop;
  the executor advances at most that many jobs, however long the job queues are.
\<close>

theorem C2_job_quota:
  "jobQuota nS nM = min 40 (u32 (nS + nM))
   \<and> (nS + nM < 4294967296 \<longrightarrow> jobQuota nS nM = min 40 (nS + nM))
   \<and> snd (ExecuteAIJob exec step nS nM events con)
       = ExecuteJobs step (jobQuota nS nM) (snd (handleEvents exec 10 events con))
   \<and> snd (snd (ExecuteAIJob exec step nS nM events con)) \<le> jobQuota nS nM
   \<and> jobQuota nS nM \<le> 40"
proof -
  have a: "jobQuota nS nM = min 40 (u32 (nS + nM))" by (rule jobQuota_min)
  have b: "nS + nM < 4294967296 \<longrightarrow> jobQuota nS nM = min 40 (nS + nM)"
    by (simp add: a u32_def)
  have c: "snd (ExecuteAIJob exec step nS nM events con)
       = ExecuteJobs step (jobQuota nS nM) (snd (handleEvents exec 10 events con))"
    by (simp add: ExecuteAIJob_def split: prod.splits)
  have d: "snd (snd (ExecuteAIJob exec step nS nM events con)) \<le> jobQuota nS nM"
    by (simp only: c ExecuteJobs_count)
  have e: "jobQuota nS nM \<le> 40" by (simp add: a)
  from a b c d e show ?thesis by (intro conjI)
qed

theorem C2_job_quota_witness:
  "jobQuota 30 25 = 40
   \<and> snd (snd (ExecuteAIJob (\<lambda>ev con. con) (\<lambda>j. j\<lparr>state := PlacingSite\<rparr>) 1 1 ([] :: AIEvent list)
       \<lparr>buildJobs = [\<lparr>state = Initial, jobTarget = (1::nat)\<rparr>, \<lparr>state = Initial, jobTarget = 2\<rparr>,
                     \<lparr>state = Initial, jobTarget = 3\<rparr>],
        connectJobs = [\<lparr>state = Initial, jobTarget = 4\<rparr>], others = ()\<rparr>)) \<le> 2"
proof -
  have "(30::nat) + 25 < 4294967296 \<longrightarrow> jobQuota 30 25 = min 40 (30 + 25)"
    by (rule conjunct1 [OF conjunct2 [OF C2_job_quota]])
  then have a: "jobQuota 30 25 = 40" by simp
  have "(1::nat) + 1 < 4294967296 \<longrightarrow> jobQuota 1 1 = min 40 (1 + 1)"
    by (rule conjunct1 [OF conjunct2 [OF C2_job_quota]])
  then have b: "jobQuota 1 1 = 2" by simp
  have "snd (snd (ExecuteAIJob (\<lambda>ev con. con) (\<lambda>j. j\<lparr>state := PlacingSite\<rparr>) 1 1 ([] :: AIEvent list)
       \<lparr>buildJobs = [\<lparr>state = Initial, jobTarget = (1::nat)\<rparr>, \<lparr>state = Initial, jobTarget = 2\<rparr>,
                     \<lparr>state = Initial, jobTarget = 3\<rparr>],
        connectJobs = [\<lparr>state = Initial, jobTarget = 4\<rparr>], others = ()\<rparr>)) \<le> jobQuota 1 1"
    by (rule conjunct1 [OF conjunct2 [OF conjunct2 [OF conjunct2 [OF C2_job_quota]]]])
  with a b show ?thesis by simp
qed

subsection \<open>Land attacks\<close>

lemma attackFirst_find:
  "attackFirst lvl w pid ts =
     (case find (worthAttacking lvl w pid) ts of
        None \<Rightarrow> []
      | Some t \<Rightarrow> [Attack (GetPos t) (fst (attackersFor w pid t)) True])"
  by (induction ts) (auto simp: worthAttacking_def split: prod.splits)

lemma attackFirst_length: "length (attackFirst lvl w pid ts) \<le> 1"
  by (simp add: attackFirst_find split: option.splits)

lemma scene_targets: "potentialTargets sceneWorld [sceneOwn] (\<lambda>i. 0) (\<lambda>xs. xs) = [sceneEnemy]"
  by (simp add: potentialTargets_def sceneWorld_def sceneOwn_def sceneEnemy_def)

lemma scene_attackers: "attackersFor sceneWorld 0 sceneEnemy = (2, 3)"
  by (simp add: attackersFor_def sceneWorld_def sceneOwn_def sceneEnemy_def u32_def)

text \<open>On the Hard level an enemy military building without troops is passed over although
  attackers are available and their strength exceeds the defenders' strength.\<close>

theorem C3_TryToAttack_empty_target_counterexample:
  "find (worthAttacking_spec Hard sceneWorld 0)
     (potentialTargets sceneWorld [sceneOwn] (\<lambda>i. 0) (\<lambda>xs. xs)) = Some sceneEnemy
   \<and> TryToAttack Hard sceneWorld 0 [sceneOwn] (\<lambda>i. 0) (\<lambda>xs. xs) = []"
  by (simp add: TryToAttack_def scene_targets worthAttacking_spec_def scene_attackers)
     (simp add: sceneEnemy_def)

text \<open>
  Claim C3, as amended. A call of \<^verbatim>\<open>TryToAttack\<close> issues at most one attack command:
  against the first potential target, in the order headquarters and harbours without
  defenders first and the shuffled others behind, for which the tallied number of available
  attackers is positive and which, when the level is Hard and the target is a military
  building, has less soldier strength than the attackers and holds at least one troop;
  the command carries that number of attackers. When there is no such target no command is
  issued; in particular none is issued when the player has no military building.
\<close>

theorem C3_TryToAttack_first_candidate:
  "TryToAttack lvl w pid militaryBuildings rnd shuffle =
     (case find (worthAttacking lvl w pid) (potentialTargets w militaryBuildings rnd shuffle) of
        None \<Rightarrow> []
      | Some t \<Rightarrow> [Attack (GetPos t) (fst (attackersFor w pid t)) True])
   \<and> length (TryToAttack lvl w pid militaryBuildings rnd shuffle) \<le> 1
   \<and> ((\<forall>xs. mset (shuffle xs) = mset xs) \<longrightarrow> TryToAttack lvl w pid [] rnd shuffle = [])"
proof -
  have "(\<forall>xs. mset (shuffle xs) = mset xs) \<longrightarrow> TryToAttack lvl w pid [] rnd shuffle = []"
  proof
    assume p: "\<forall>xs. mset (shuffle xs) = mset xs"
    then have "mset (shuffle []) = mset []" by (rule spec)
    then have "shuffle [] = []" by simp
    then show "TryToAttack lvl w pid [] rnd shuffle = []"
      by (simp add: TryToAttack_def potentialTargets_def)
  qed
  moreover have "length (TryToAttack lvl w pid militaryBuildings rnd shuffle) \<le> 1"
    unfolding TryToAttack_def by (rule attackFirst_length)
  moreover have "TryToAttack lvl w pid militaryBuildings rnd shuffle =
     (case find (worthAttacking lvl w pid) (potentialTargets w militaryBuildings rnd shuffle) of
        None \<Rightarrow> []
      | Some t \<Rightarrow> [Attack (GetPos t) (fst (attackersFor w pid t)) True])"
    unfolding TryToAttack_def by (rule attackFirst_find)
  ultimately show ?thesis by (intro conjI)
qed

theorem C3_TryToAttack_first_candidate_witness:
  "TryToAttack Medium sceneWorld 0 [sceneOwn] (\<lambda>i. 0) (\<lambda>xs. xs) = [Attack (2, 2) 2 True]
   \<and> TryToAttack Medium sceneWorld 0 [] (\<lambda>i. 0) (\<lambda>xs. xs) = []"
proof -
  have a: "TryToAttack Medium sceneWorld 0 [sceneOwn] (\<lambda>i. 0) (\<lambda>xs. xs) =
     (case find (worthAttacking Medium sceneWorld 0)
        (potentialTargets sceneWorld [sceneOwn] (\<lambda>i. 0) (\<lambda>xs. xs)) of
        None \<Rightarrow> []
      | Some t \<Rightarrow> [Attack (GetPos t) (fst (attackersFor sceneWorld 0 t)) True])"
    by (rule conjunct1 [OF C3_TryToAttack_first_candidate])
  have b: "(\<forall>xs::nobBaseMilitary list. mset ((\<lambda>xs. xs) xs) = mset xs)
      \<longrightarrow> TryToAttack Medium sceneWorld 0 [] (\<lambda>i. 0) (\<lambda>xs. xs) = []"
    by (rule conjunct2 [OF conjunct2 [OF C3_TryToAttack_first_candidate]])
  have c: "GetPos sceneEnemy = (2, 2)" by (simp add: sceneEnemy_def)
  from a b show ?thesis
    by (simp add: scene_targets worthAttacking_def scene_attackers c)
qed

subsection \<open>Goods distribution\<close>

lemma applyCommands_append:
  "applyCommands (cs @ ds) wh = applyCommands ds (applyCommands cs wh)"
proof (induction cs arbitrary: wh)
  case Nil
  show ?case by simp
next
  case (Cons c cs)
  show ?case by (cases c) (simp add: Cons.IH)
qed

lemma applyCommands_elsewhere:
  "(\<And>g b. SetInventorySetting (whPos wh) g b \<notin> set cmds) \<Longrightarrow> applyCommands cmds wh = wh"
proof (induction cmds)
  case Nil
  show ?case by simp
next
  case (Cons c cmds)
  obtain p g b where c: "c = SetInventorySetting p g b" by (cases c)
  from Cons.prems [of g b] c have "p \<noteq> whPos wh" by auto
  moreover have "applyCommands cmds wh = wh"
    by (rule Cons.IH) (use Cons.prems in auto)
  ultimately show ?case by (simp add: c)
qed

text \<open>The commands for one warehouse, given the state it should end in.\<close>

lemma unblock_block_pos:
  "SetInventorySetting p g b \<in> set (if t then block good x else unblock good x) \<Longrightarrow> p = whPos x"
  by (auto simp: block_def unblock_def split: if_splits)

lemma unblock_block_apply:
  "whPos wh = whPos x \<Longrightarrow> IsStopped wh good = IsStopped x good \<Longrightarrow>
   IsStopped (applyCommands (if t then block good x else unblock good x) wh) good = t
   \<and> whPos (applyCommands (if t then block good x else unblock good x) wh) = whPos wh"
  by (auto simp: block_def unblock_def ToggleStop_def)

lemma pairs_pos:
  "SetInventorySetting p g b
     \<in> set (concat (map (\<lambda>(x, t). if t then block good x else unblock good x) pairs))
   \<Longrightarrow> p \<in> set (map (\<lambda>pr. whPos (fst pr)) pairs)"
  by (induction pairs) (auto dest: unblock_block_pos)

lemma pairs_blockedAfter:
  assumes "distinct (map (\<lambda>pr. whPos (fst pr)) pairs)" and "(wh, t) \<in> set pairs"
  shows "blockedAfter (concat (map (\<lambda>(x, t). if t then block good x else unblock good x) pairs))
           good wh = t"
  using assms
proof (induction pairs)
  case Nil
  then show ?case by simp
next
  case (Cons pr pairs)
  obtain x tx where pr: "pr = (x, tx)" by (cases pr)
  let ?F = "\<lambda>(x, t). if t then block good x else unblock good x"
  let ?cx = "if tx then block good x else unblock good x"
  have step: "applyCommands (concat (map ?F (pr # pairs))) wh
      = applyCommands (concat (map ?F pairs)) (applyCommands ?cx wh)"
    by (simp add: pr applyCommands_append)
  from Cons.prems(1) have nx: "whPos x \<notin> set (map (\<lambda>pr. whPos (fst pr)) pairs)"
    and dist: "distinct (map (\<lambda>pr. whPos (fst pr)) pairs)"
    by (simp_all add: pr)
  show ?case
  proof (cases "(wh, t) = (x, tx)")
    case True
    then have eq: "wh = x" "t = tx" by simp_all
    let ?wh' = "applyCommands ?cx wh"
    from unblock_block_apply [of wh x good tx] eq
    have st: "IsStopped ?wh' good = tx" and ps: "whPos ?wh' = whPos x" by simp_all
    have "applyCommands (concat (map ?F pairs)) ?wh' = ?wh'"
    proof (rule applyCommands_elsewhere)
      fix g b
      show "SetInventorySetting (whPos ?wh') g b \<notin> set (concat (map ?F pairs))"
      proof
        assume "SetInventorySetting (whPos ?wh') g b \<in> set (concat (map ?F pairs))"
        then have "SetInventorySetting (whPos x) g b \<in> set (concat (map ?F pairs))"
          by (simp only: ps)
        then have "whPos x \<in> set (map (\<lambda>pr. whPos (fst pr)) pairs)" by (rule pairs_pos)
        with nx show False by (rule notE)
      qed
    qed
    then have a: "applyCommands (concat (map ?F (pr # pairs))) wh = ?wh'" by (simp only: step)
    show ?thesis unfolding blockedAfter_def a using st eq(2) by (simp only:)
  next
    case False
    with Cons.prems(2) have mem: "(wh, t) \<in> set pairs" by (auto simp: pr)
    then have "whPos (fst (wh, t)) \<in> (\<lambda>pr. whPos (fst pr)) ` set pairs" by (rule imageI)
    then have "whPos wh \<in> set (map (\<lambda>pr. whPos (fst pr)) pairs)" by simp
    with nx have ne: "whPos x \<noteq> whPos wh" by metis
    have "applyCommands ?cx wh = wh"
    proof (rule applyCommands_elsewhere)
      fix g b
      show "SetInventorySetting (whPos wh) g b \<notin> set ?cx"
      proof
        assume "SetInventorySetting (whPos wh) g b \<in> set ?cx"
        then have "whPos wh = whPos x" by (rule unblock_block_pos)
        with ne show False by simp
      qed
    qed
    then have "applyCommands (concat (map ?F (pr # pairs))) wh
        = applyCommands (concat (map ?F pairs)) wh" by (simp only: step)
    with Cons.IH [OF dist mem] show ?thesis by (simp only: blockedAfter_def)
  qed
qed

lemma balanceGroup_pairs:
  "balanceGroup good limit g =
     concat (map (\<lambda>(x, t). if t then block good x else unblock good x)
       (map (\<lambda>x. (x, (\<exists>y\<in>set g. GetNumVisualWares y good \<le> limit)
                       \<and> limit < GetNumVisualWares x good)) g))"
proof (cases "list_all (\<lambda>wh. \<not> GetNumVisualWares wh good \<le> limit) g")
  case True
  then have "\<not> (\<exists>y\<in>set g. GetNumVisualWares y good \<le> limit)"
    by (simp add: list_all_iff)
  with True show ?thesis
    by (simp add: balanceGroup_def comp_def)
next
  case False
  then have "\<exists>y\<in>set g. GetNumVisualWares y good \<le> limit"
    by (simp add: list_all_iff)
  moreover have sw: "\<And>c (a :: 'a InventoryCommand list) b.
      (if \<not> c then a else b) = (if c then b else a)"
    by simp
  ultimately show ?thesis using False
    by (simp add: balanceGroup_def comp_def not_le [symmetric] sw)
qed

lemma groups_blockedAfter:
  assumes dist: "distinct (map whPos (concat gs))" and g: "g \<in> set gs" and wh: "wh \<in> set g"
  shows "blockedAfter (concat (map (balanceGroup good limit) gs)) good wh
         = ((\<exists>y\<in>set g. GetNumVisualWares y good \<le> limit) \<and> limit < GetNumVisualWares wh good)"
proof -
  let ?d = "\<lambda>g x. (\<exists>y\<in>set g. GetNumVisualWares y good \<le> limit) \<and> limit < GetNumVisualWares x good"
  let ?F = "\<lambda>(x, t). if t then block good x else unblock good x"
  let ?pairs = "concat (map (\<lambda>g. map (\<lambda>x. (x, ?d g x)) g) gs)"
  have cmds: "concat (map (balanceGroup good limit) gs) = concat (map ?F ?pairs)"
    by (induction gs) (simp_all add: balanceGroup_pairs)
  have pos: "map (\<lambda>pr. whPos (fst pr)) ?pairs = map whPos (concat gs)"
    by (induction gs) (simp_all add: comp_def)
  have mem: "(wh, ?d g wh) \<in> set ?pairs"
    using g wh by auto
  from dist have "distinct (map (\<lambda>pr. whPos (fst pr)) ?pairs)"
    by (simp only: pos)
  from pairs_blockedAfter [OF this mem, of good] show ?thesis
    by (simp only: cmds)
qed

lemma unblock_all_blockedAfter:
  assumes dist: "distinct (map whPos whs)" and wh: "wh \<in> set whs"
  shows "\<not> blockedAfter (concat (map (unblock good) whs)) good wh"
proof -
  let ?F = "\<lambda>(x, t). if t then block good x else unblock good x"
  let ?pairs = "map (\<lambda>x. (x, False)) whs"
  have cmds: "concat (map (unblock good) whs) = concat (map ?F ?pairs)"
    by (simp add: comp_def)
  have "distinct (map (\<lambda>pr. whPos (fst pr)) ?pairs)"
    using dist by (simp add: comp_def)
  moreover have "(wh, False) \<in> set ?pairs" using wh by auto
  ultimately have "blockedAfter (concat (map ?F ?pairs)) good wh = False"
    by (rule pairs_blockedAfter)
  then show ?thesis by (simp only: cmds) simp
qed

lemma mset_joinGroup: "mset (concat (joinGroup path wh gs)) = add_mset wh (mset (concat gs))"
  by (induction gs) simp_all

lemma mset_fold_joinGroup:
  "mset (concat (fold (joinGroup path) whs gs)) = mset whs + mset (concat gs)"
  by (induction whs arbitrary: gs) (simp_all add: mset_joinGroup)

lemma mset_whsByReachability: "mset (concat (whsByReachability path whs)) = mset whs"
  by (simp add: whsByReachability_def mset_fold_joinGroup)

lemma joinGroup_connected:
  assumes "\<forall>g\<in>set gs. g \<noteq> [] \<and> (\<forall>x\<in>set g. x = hd g \<or> path x (hd g))"
  shows "\<forall>g\<in>set (joinGroup path wh gs). g \<noteq> [] \<and> (\<forall>x\<in>set g. x = hd g \<or> path x (hd g))"
  using assms by (induction gs) auto

lemma fold_joinGroup_connected:
  assumes "\<forall>g\<in>set gs. g \<noteq> [] \<and> (\<forall>x\<in>set g. x = hd g \<or> path x (hd g))"
  shows "\<forall>g\<in>set (fold (joinGroup path) whs gs).
           g \<noteq> [] \<and> (\<forall>x\<in>set g. x = hd g \<or> path x (hd g))"
  using assms
proof (induction whs arbitrary: gs)
  case Nil
  then show ?case by simp
next
  case (Cons wh whs)
  from joinGroup_connected [OF Cons.prems] show ?case
    by (simp only: fold_simps) (rule Cons.IH)
qed

lemma joinGroup_heads:
  assumes "\<forall>g\<in>set gs. g \<noteq> []"
  shows "map hd (joinGroup path wh gs)
         = (if \<exists>g\<in>set gs. path wh (hd g) then map hd gs else map hd gs @ [wh])"
  using assms by (induction gs) auto

lemma joinGroup_separate:
  assumes ne: "\<forall>g\<in>set gs. g \<noteq> []"
    and sep: "\<forall>j<length gs. \<forall>i<j. \<not> path (map hd gs ! j) (map hd gs ! i)"
  shows "\<forall>j<length (joinGroup path wh gs). \<forall>i<j.
           \<not> path (map hd (joinGroup path wh gs) ! j) (map hd (joinGroup path wh gs) ! i)"
proof (cases "\<exists>g\<in>set gs. path wh (hd g)")
  case True
  with joinGroup_heads [OF ne, of path wh] have h: "map hd (joinGroup path wh gs) = map hd gs"
    by simp
  from arg_cong [OF h, of length] have "length (joinGroup path wh gs) = length gs" by simp
  with sep show ?thesis by (simp only: h) 
next
  case False
  with joinGroup_heads [OF ne, of path wh] have h: "map hd (joinGroup path wh gs) = map hd gs @ [wh]"
    by simp
  from arg_cong [OF h, of length] have len: "length (joinGroup path wh gs) = Suc (length gs)" by simp
  show ?thesis
  proof (intro allI impI)
    fix j i
    assume j: "j < length (joinGroup path wh gs)" and i: "i < j"
    show "\<not> path (map hd (joinGroup path wh gs) ! j) (map hd (joinGroup path wh gs) ! i)"
    proof (cases "j < length gs")
      case True
      with i sep show ?thesis by (simp add: h nth_append)
    next
      case False
      with j len have jl: "j = length gs" by simp
      with i have "gs ! i \<in> set gs" by simp
      with \<open>\<not> (\<exists>g\<in>set gs. path wh (hd g))\<close> have "\<not> path wh (hd (gs ! i))" by blast
      with jl i show ?thesis by (simp add: h nth_append)
    qed
  qed
qed

lemma fold_joinGroup_separate:
  assumes "\<forall>g\<in>set gs. g \<noteq> [] \<and> (\<forall>x\<in>set g. x = hd g \<or> path x (hd g))"
    and "\<forall>j<length gs. \<forall>i<j. \<not> path (map hd gs ! j) (map hd gs ! i)"
  shows "\<forall>j<length (fold (joinGroup path) whs gs). \<forall>i<j.
           \<not> path (map hd (fold (joinGroup path) whs gs) ! j)
                   (map hd (fold (joinGroup path) whs gs) ! i)"
  using assms
proof (induction whs arbitrary: gs)
  case Nil
  then show ?case by simp
next
  case (Cons wh whs)
  from Cons.prems(1) have ne: "\<forall>g\<in>set gs. g \<noteq> []" by blast
  have "\<forall>j<length (fold (joinGroup path) whs (joinGroup path wh gs)). \<forall>i<j.
           \<not> path (map hd (fold (joinGroup path) whs (joinGroup path wh gs)) ! j)
                   (map hd (fold (joinGroup path) whs (joinGroup path wh gs)) ! i)"
    by (rule Cons.IH [OF joinGroup_connected [OF Cons.prems(1)] joinGroup_separate [OF ne Cons.prems(2)]])
  then show ?case by (simp only: fold_simps)
qed

text \<open>Two connected warehouses that both hold more than the limit, and start blocked, end
  unblocked.\<close>

theorem C4_all_above_limit_counterexample:
  "list_all (\<lambda>wh. 30 \<le> GetNumVisualWares wh ''Boards'') [sceneWhA, sceneWhB]
   \<and> whsByReachability (\<lambda>a b. True) [sceneWhA, sceneWhB] = [[sceneWhA, sceneWhB]]
   \<and> \<not> blockedAfter (DistributeGoodsByBlocking 0 [sceneWhA, sceneWhB] (\<lambda>a b. True) ''Boards'' 30)
         ''Boards'' sceneWhA
   \<and> \<not> blockedAfter (DistributeGoodsByBlocking 0 [sceneWhA, sceneWhB] (\<lambda>a b. True) ''Boards'' 30)
         ''Boards'' sceneWhB"
  by (simp add: DistributeGoodsByBlocking_def whsByReachability_def balanceGroup_def
      unblock_def block_def ToggleStop_def blockedAfter_def sceneWhA_def sceneWhB_def)

text \<open>
  Claim C4, as amended. For every good and limit, and warehouses at distinct positions:
  when the harbours are at least half as many as the warehouses (rounded down), every
  warehouse ends unblocked. Otherwise the warehouses are partitioned into groups, every
  member of a group having a road path to the group's first member and the first member
  of a later group having none to the first member of an earlier one, and each group is
  balanced alone: a warehouse ends blocked exactly when it holds more than the limit and
  some warehouse of its group holds at most the limit. So a group whose warehouses all
  hold more than the limit ends unblocked, and in every case a warehouse that holds at
  most the limit ends unblocked.
\<close>

theorem C4_distribution:
  assumes dist: "distinct (map whPos storehouses)"
  shows "(length storehouses div 2 \<le> numHarbors \<longrightarrow>
          (\<forall>wh\<in>set storehouses.
             \<not> blockedAfter (DistributeGoodsByBlocking numHarbors storehouses path good limit) good wh))
       \<and> (numHarbors < length storehouses div 2 \<longrightarrow>
            mset (concat (whsByReachability path storehouses)) = mset storehouses
          \<and> (\<forall>g\<in>set (whsByReachability path storehouses).
                g \<noteq> [] \<and> (\<forall>x\<in>set g. x = hd g \<or> path x (hd g)))
          \<and> (\<forall>j<length (whsByReachability path storehouses). \<forall>i<j.
                \<not> path (hd (whsByReachability path storehouses ! j))
                        (hd (whsByReachability path storehouses ! i)))
          \<and> (\<forall>g\<in>set (whsByReachability path storehouses). \<forall>wh\<in>set g.
                blockedAfter (DistributeGoodsByBlocking numHarbors storehouses path good limit) good wh
                = ((\<exists>y\<in>set g. GetNumVisualWares y good \<le> limit)
                   \<and> limit < GetNumVisualWares wh good)))
       \<and> (\<forall>wh\<in>set storehouses. GetNumVisualWares wh good \<le> limit \<longrightarrow>
            \<not> blockedAfter (DistributeGoodsByBlocking numHarbors storehouses path good limit) good wh)"
proof -
  let ?gs = "whsByReachability path storehouses"
  let ?cmds = "DistributeGoodsByBlocking numHarbors storehouses path good limit"
  have part: "mset (concat ?gs) = mset storehouses" by (rule mset_whsByReachability)
  have conn: "\<forall>g\<in>set ?gs. g \<noteq> [] \<and> (\<forall>x\<in>set g. x = hd g \<or> path x (hd g))"
    unfolding whsByReachability_def by (rule fold_joinGroup_connected) simp
  have "\<forall>j<length ?gs. \<forall>i<j. \<not> path (map hd ?gs ! j) (map hd ?gs ! i)"
    unfolding whsByReachability_def by (rule fold_joinGroup_separate) simp_all
  then have sep: "\<forall>j<length ?gs. \<forall>i<j. \<not> path (hd (?gs ! j)) (hd (?gs ! i))"
    by simp
  have "mset (map whPos (concat ?gs)) = mset (map whPos storehouses)"
    using part by (simp only: mset_map)
  then have "distinct (map whPos (concat ?gs)) = distinct (map whPos storehouses)"
    by (rule mset_eq_imp_distinct_iff)
  with dist have dist': "distinct (map whPos (concat ?gs))"
    by (simp only:)
  have harb: "\<forall>wh\<in>set storehouses. \<not> blockedAfter ?cmds good wh"
    if "length storehouses div 2 \<le> numHarbors"
    using that unblock_all_blockedAfter [OF dist]
    by (simp add: DistributeGoodsByBlocking_def)
  have grp: "\<forall>g\<in>set ?gs. \<forall>wh\<in>set g. blockedAfter ?cmds good wh
                = ((\<exists>y\<in>set g. GetNumVisualWares y good \<le> limit)
                   \<and> limit < GetNumVisualWares wh good)"
    if "numHarbors < length storehouses div 2"
    using that groups_blockedAfter [OF dist']
    by (simp add: DistributeGoodsByBlocking_def)
  have low: "\<forall>wh\<in>set storehouses. GetNumVisualWares wh good \<le> limit \<longrightarrow>
            \<not> blockedAfter ?cmds good wh"
  proof (cases "length storehouses div 2 \<le> numHarbors")
    case True
    with harb show ?thesis by blast
  next
    case False
    then have lt: "numHarbors < length storehouses div 2" by simp
    show ?thesis
    proof (intro ballI impI)
      fix wh
      assume wh: "wh \<in> set storehouses" and le: "GetNumVisualWares wh good \<le> limit"
      from wh have "wh \<in> set (concat ?gs)"
        using part by (metis set_mset_mset)
      then obtain g where g: "g \<in> set ?gs" "wh \<in> set g" by auto
      with grp [OF lt] have "blockedAfter ?cmds good wh
          = ((\<exists>y\<in>set g. GetNumVisualWares y good \<le> limit) \<and> limit < GetNumVisualWares wh good)"
        by blast
      with le show "\<not> blockedAfter ?cmds good wh" by simp
    qed
  qed
  from harb grp part conn sep low show ?thesis by blast
qed

theorem C4_distribution_witness:
  "blockedAfter (DistributeGoodsByBlocking 0 [sceneWhA, sceneWhC] (\<lambda>a b. True) ''Boards'' 30)
     ''Boards'' sceneWhA
   \<and> \<not> blockedAfter (DistributeGoodsByBlocking 0 [sceneWhA, sceneWhC] (\<lambda>a b. True) ''Boards'' 30)
     ''Boards'' sceneWhC"
proof -
  have d: "distinct (map whPos [sceneWhA, sceneWhC])"
    by (simp add: sceneWhA_def sceneWhC_def)
  have g: "whsByReachability (\<lambda>a b. True) [sceneWhA, sceneWhC] = [[sceneWhA, sceneWhC]]"
    by (simp add: whsByReachability_def)
  have h: "(0::nat) < length [sceneWhA, sceneWhC] div 2" by simp
  from C4_distribution [OF d, of 0 "\<lambda>a b. True" "''Boards''" 30] h
  have "\<forall>g\<in>set (whsByReachability (\<lambda>a b. True) [sceneWhA, sceneWhC]). \<forall>wh\<in>set g.
          blockedAfter (DistributeGoodsByBlocking 0 [sceneWhA, sceneWhC] (\<lambda>a b. True) ''Boards'' 30)
            ''Boards'' wh
          = ((\<exists>y\<in>set g. GetNumVisualWares y ''Boards'' \<le> 30)
             \<and> 30 < GetNumVisualWares wh ''Boards'')"
    by blast
  then show ?thesis
    by (simp add: g) (simp add: sceneWhA_def sceneWhC_def)
qed

subsection \<open>Avoided positions\<close>

lemma fold_best_cases:
  "fold (\<lambda>pt best. if P pt \<and> Q best pt then pt else best) pts b = b
   \<or> (\<exists>pt\<in>set pts. P pt \<and> fold (\<lambda>pt best. if P pt \<and> Q best pt then pt else best) pts b = pt)"
proof (induction pts arbitrary: b)
  case Nil
  show ?case by simp
next
  case (Cons a pts)
  let ?f = "\<lambda>pt best. if P pt \<and> Q best pt then pt else best"
  show ?case
  proof (cases "P a \<and> Q b a")
    case True
    then have s: "fold ?f (a # pts) b = fold ?f pts a" by simp
    from Cons.IH [of a] True show ?thesis unfolding s by auto
  next
    case False
    then have s: "fold ?f (a # pts) b = fold ?f pts b" by auto
    from Cons.IH [of b] show ?thesis unfolding s by auto
  qed
qed

lemma findBestPosition_cases:
  "findBestPosition m pts fits minimum = MapPoint_Invalid
   \<or> (findBestPosition m pts fits minimum \<in> set pts
      \<and> fits (findBestPosition m pts fits minimum)
      \<and> \<not> avoided m (findBestPosition m pts fits minimum)
      \<and> minimum \<le> resValue m (findBestPosition m pts fits minimum))"
proof -
  let ?P = "\<lambda>pt. fits pt \<and> \<not> avoided m pt \<and> minimum \<le> resValue m pt"
  let ?Q = "\<lambda>best pt. best = MapPoint_Invalid \<or> resValue m best < resValue m pt"
  have e: "findBestPosition m pts fits minimum
      = fold (\<lambda>pt best. if ?P pt \<and> ?Q best pt then pt else best) pts MapPoint_Invalid"
    by (simp add: findBestPosition_def)
  from fold_best_cases [of ?P ?Q pts MapPoint_Invalid] show ?thesis
    unfolding e by auto
qed

lemma avoided_avoidPosition: "avoided (avoidPosition p m) p"
  by (simp add: avoidPosition_def)

lemma avoided_updateAround: "avoided (updateAround recompute pts m) = avoided m"
  by (simp add: updateAround_def)

text \<open>
  Claim C7. A search on a resource map returns the invalid position or a position that is
  not in the map's avoid set, also after the refresh that \<^verbatim>\<open>FindBestPosition\<close> does first.
  So after \<^verbatim>\<open>avoidPosition(p)\<close> for a valid \<open>p\<close> no search returns \<open>p\<close>, and a search in
  which no point of the radius other than \<open>p\<close> is a candidate returns the invalid
  position. When the quarry search discards the position found because no stone is in
  range, it returns the invalid position and no later search on the stone map returns the
  discarded position.
\<close>

theorem C7_avoided_never_returned:
  "(findBestPosition m pts fits minimum = MapPoint_Invalid
    \<or> \<not> avoided m (findBestPosition m pts fits minimum))
   \<and> (fst (FindBestPosition recompute m pts fits minimum) = MapPoint_Invalid
      \<or> \<not> avoided m (fst (FindBestPosition recompute m pts fits minimum)))
   \<and> (isValid p \<longrightarrow> fst (FindBestPosition recompute (avoidPosition p m) pts fits minimum) \<noteq> p)
   \<and> ((\<forall>q\<in>set pts. q \<noteq> p \<longrightarrow> \<not> (fits q \<and> minimum \<le> recompute q)) \<longrightarrow>
        fst (FindBestPosition recompute (avoidPosition p m) pts fits minimum) = MapPoint_Invalid)
   \<and> (\<forall>found m'. FindPositionForQuarry recompute valid n m pts fits = (found, m') \<longrightarrow>
         fst (FindBestPosition recompute m pts fits (int (min 40 (u32 (1 + n * 10))))) \<noteq> found \<longrightarrow>
           found = MapPoint_Invalid
           \<and> fst (FindBestPosition recompute' m' pts' fits' minimum')
               \<noteq> fst (FindBestPosition recompute m pts fits (int (min 40 (u32 (1 + n * 10))))))"
proof -
  have a: "findBestPosition m pts fits minimum = MapPoint_Invalid
    \<or> \<not> avoided m (findBestPosition m pts fits minimum)" for m pts fits minimum
    using findBestPosition_cases [of m pts fits minimum] by blast
  have b: "fst (FindBestPosition recompute m pts fits minimum) = MapPoint_Invalid
      \<or> \<not> avoided m (fst (FindBestPosition recompute m pts fits minimum))"
    for recompute m pts fits minimum
    using a [of "updateAround recompute pts m" pts fits minimum]
    by (simp add: FindBestPosition_def Let_def avoided_updateAround)
  have c: "fst (FindBestPosition recompute (avoidPosition p m) pts fits minimum) \<noteq> p"
    if "isValid p" for recompute p m pts fits minimum
    using b [of recompute "avoidPosition p m" pts fits minimum] that avoided_avoidPosition [of p m]
    by (auto simp: isValid_def)
  have d: "fst (FindBestPosition recompute (avoidPosition p m) pts fits minimum) = MapPoint_Invalid"
    if only: "\<forall>q\<in>set pts. q \<noteq> p \<longrightarrow> \<not> (fits q \<and> minimum \<le> recompute q)"
  proof (rule ccontr)
    let ?m = "updateAround recompute pts (avoidPosition p m)"
    let ?r = "findBestPosition ?m pts fits minimum"
    assume "fst (FindBestPosition recompute (avoidPosition p m) pts fits minimum) \<noteq> MapPoint_Invalid"
    then have "?r \<noteq> MapPoint_Invalid" by (simp add: FindBestPosition_def Let_def)
    with findBestPosition_cases [of ?m pts fits minimum]
    have r: "?r \<in> set pts" "fits ?r" "\<not> avoided ?m ?r" "minimum \<le> resValue ?m ?r" by blast+
    from r(3) have "?r \<noteq> p"
      using avoided_avoidPosition [of p m] by (auto simp: avoided_updateAround)
    with only r(1) have "\<not> (fits ?r \<and> minimum \<le> recompute ?r)" by blast
    moreover from r(1) have "resValue ?m ?r = recompute ?r" by (simp add: updateAround_def)
    ultimately show False using r(2) r(4) by simp
  qed
  have e: "found = MapPoint_Invalid
           \<and> fst (FindBestPosition recompute' m' pts' fits' minimum')
               \<noteq> fst (FindBestPosition recompute m pts fits (int (min 40 (u32 (1 + n * 10)))))"
    if q: "FindPositionForQuarry recompute valid n m pts fits = (found, m')"
      and ne: "fst (FindBestPosition recompute m pts fits (int (min 40 (u32 (1 + n * 10))))) \<noteq> found"
    for found m'
  proof -
    let ?min = "int (min 40 (u32 (1 + n * 10)))"
    let ?fp = "fst (FindBestPosition recompute m pts fits ?min)"
    let ?m1 = "snd (FindBestPosition recompute m pts fits ?min)"
    from q ne have v: "isValid ?fp" and f: "found = MapPoint_Invalid"
      and m': "m' = avoidPosition ?fp ?m1"
      by (auto simp: FindPositionForQuarry_def Let_def split: prod.splits if_splits)
    from c [OF v, of recompute' ?m1 pts' fits' minimum'] f m' show ?thesis by simp
  qed
  from a b c d e show ?thesis by blast
qed

theorem C7_avoided_never_returned_witness:
  "fst (FindBestPosition (\<lambda>pt. 50) sceneMap [(4, 4)] (\<lambda>pt. True) 20) = (4, 4)
   \<and> fst (FindBestPosition (\<lambda>pt. 50) (avoidPosition (4, 4) sceneMap) [(4, 4)] (\<lambda>pt. True) 20)
       = MapPoint_Invalid"
proof -
  have "(\<forall>q\<in>set [(4::nat, 4::nat)]. q \<noteq> (4, 4) \<longrightarrow> \<not> ((\<lambda>pt. True) q \<and> 20 \<le> (\<lambda>pt. 50::int) q)) \<longrightarrow>
     fst (FindBestPosition (\<lambda>pt. 50) (avoidPosition (4, 4) sceneMap) [(4, 4)] (\<lambda>pt. True) 20)
       = MapPoint_Invalid"
    by (rule conjunct1 [OF conjunct2 [OF conjunct2 [OF conjunct2 [OF C7_avoided_never_returned]]]])
  then have "fst (FindBestPosition (\<lambda>pt. 50) (avoidPosition (4, 4) sceneMap) [(4, 4)] (\<lambda>pt. True) 20)
       = MapPoint_Invalid"
    by simp
  moreover have "fst (FindBestPosition (\<lambda>pt. 50) sceneMap [(4, 4)] (\<lambda>pt. True) 20) = (4, 4)"
    by (simp add: FindBestPosition_def Let_def findBestPosition_def updateAround_def sceneMap_def
        MapPoint_Invalid_def)
  ultimately show ?thesis by simp
qed

subsection \<open>Reachability flood\<close>

lemma gridPoints_set: "set (gridPoints w h) = {(x, y). x < w \<and> y < h}"
  by (auto simp: gridPoints_def)

lemma resetNodes_result:
  "resetNodes myFlag pts (m, q) = (m', q') \<Longrightarrow>
     q' = q @ filter myFlag pts
     \<and> (\<forall>p\<in>set pts. reachable (m' p) = myFlag p \<and> failed_penalty (m' p) = 0)
     \<and> (\<forall>p. p \<notin> set pts \<longrightarrow> m' p = m p)"
proof (induction pts arbitrary: m q)
  case Nil
  then show ?case by simp
next
  case (Cons a pts)
  let ?m1 = "if myFlag a then m(a := (m a)\<lparr>failed_penalty := 0, reachable := True\<rparr>)
             else m(a := (m a)\<lparr>reachable := False, failed_penalty := 0\<rparr>)"
  let ?q1 = "if myFlag a then q @ [a] else q"
  from Cons.prems have r: "resetNodes myFlag pts (?m1, ?q1) = (m', q')"
    by (simp add: Let_def split: if_splits)
  note ih = Cons.IH [OF r]
  have a1: "reachable (?m1 a) = myFlag a" "failed_penalty (?m1 a) = 0" by simp_all
  have o1: "\<And>p. p \<noteq> a \<Longrightarrow> ?m1 p = m p" by simp
  from ih have q: "q' = q @ filter myFlag (a # pts)" by simp
  have old: "\<forall>p\<in>set (a # pts). reachable (m' p) = myFlag p \<and> failed_penalty (m' p) = 0"
  proof
    fix p assume p: "p \<in> set (a # pts)"
    show "reachable (m' p) = myFlag p \<and> failed_penalty (m' p) = 0"
    proof (cases "p \<in> set pts")
      case True
      with ih show ?thesis by blast
    next
      case False
      with p have pa: "p = a" by simp
      from ih False have "m' p = ?m1 p" by blast
      with a1 pa show ?thesis by simp
    qed
  qed
  have rest: "\<forall>p. p \<notin> set (a # pts) \<longrightarrow> m' p = m p"
  proof (intro allI impI)
    fix p assume p: "p \<notin> set (a # pts)"
    then have np: "p \<notin> set pts" and pa: "p \<noteq> a" by simp_all
    from ih np have "m' p = ?m1 p" by blast
    also from pa have "?m1 p = m p" by (rule o1)
    finally show "m' p = m p" .
  qed
  from q old rest show ?case by blast
qed

lemma checkNeighbours_Cons:
  "failed_penalty (m n) = 0 \<Longrightarrow>
   checkNeighbours ok (n # ns) (m, q) =
     (if \<not> reachable (m n) \<and> ok n
      then checkNeighbours ok ns (m(n := (m n)\<lparr>reachable := True\<rparr>), q @ [n])
      else checkNeighbours ok ns (m, q))"
  by (simp add: Let_def)

lemma checkNeighbours_result:
  assumes "finite G"
  shows "set ns \<subseteq> G \<Longrightarrow> \<forall>p\<in>G. failed_penalty (m p) = 0 \<Longrightarrow>
     checkNeighbours ok ns (m, q) = (m', q') \<Longrightarrow>
       (\<forall>p\<in>G. failed_penalty (m' p) = 0)
     \<and> (\<forall>p. reachable (m' p) = (reachable (m p) \<or> (p \<in> set ns \<and> ok p)))
     \<and> (\<exists>pushed. q' = q @ pushed \<and> set pushed \<subseteq> {n \<in> set ns. ok n}
           \<and> (\<forall>p. reachable (m' p) \<and> \<not> reachable (m p) \<longrightarrow> p \<in> set pushed))
     \<and> 2 * card {p \<in> G. \<not> reachable (m' p)} + length q'
         \<le> 2 * card {p \<in> G. \<not> reachable (m p)} + length q"
proof (induction ns arbitrary: m q)
  case Nil
  then show ?case by simp
next
  case (Cons n ns)
  from Cons.prems(1) have nG: "n \<in> G" and nsG: "set ns \<subseteq> G" by simp_all
  from Cons.prems(2) nG have pen: "failed_penalty (m n) = 0" by blast
  show ?case
  proof (cases "\<not> reachable (m n) \<and> ok n")
    case False
    from Cons.prems(3) have r: "checkNeighbours ok ns (m, q) = (m', q')"
      unfolding checkNeighbours_Cons [of m n, OF pen] using False by simp
    note ih = Cons.IH [OF nsG Cons.prems(2) r]
    from ih have "\<forall>p\<in>G. failed_penalty (m' p) = 0" by blast
    moreover from ih False
    have "\<forall>p. reachable (m' p) = (reachable (m p) \<or> (p \<in> set (n # ns) \<and> ok p))"
      by auto
    moreover from ih obtain pushed where pu: "q' = q @ pushed" "set pushed \<subseteq> {n \<in> set ns. ok n}"
        "\<forall>p. reachable (m' p) \<and> \<not> reachable (m p) \<longrightarrow> p \<in> set pushed"
      by blast
    then have "\<exists>pushed. q' = q @ pushed \<and> set pushed \<subseteq> {x \<in> set (n # ns). ok x}
           \<and> (\<forall>p. reachable (m' p) \<and> \<not> reachable (m p) \<longrightarrow> p \<in> set pushed)"
      by (intro exI [of _ pushed]) auto
    moreover from ih have "2 * card {p \<in> G. \<not> reachable (m' p)} + length q'
         \<le> 2 * card {p \<in> G. \<not> reachable (m p)} + length q" by blast
    ultimately show ?thesis by blast
  next
    case True
    let ?m1 = "m(n := (m n)\<lparr>reachable := True\<rparr>)"
    let ?q1 = "q @ [n]"
    from Cons.prems(3) have r: "checkNeighbours ok ns (?m1, ?q1) = (m', q')"
      unfolding checkNeighbours_Cons [of m n, OF pen] using True by simp
    have pen1: "\<forall>p\<in>G. failed_penalty (?m1 p) = 0" using Cons.prems(2) by simp
    note ih = Cons.IH [OF nsG pen1 r]
    have r1: "\<And>p. reachable (?m1 p) = (reachable (m p) \<or> p = n)" by simp
    from ih have "\<forall>p\<in>G. failed_penalty (m' p) = 0" by blast
    moreover from ih True
    have reach: "\<forall>p. reachable (m' p) = (reachable (m p) \<or> (p \<in> set (n # ns) \<and> ok p))"
      by (auto simp: r1)
    moreover from ih obtain pushed where pu: "q' = ?q1 @ pushed" "set pushed \<subseteq> {n \<in> set ns. ok n}"
        "\<forall>p. reachable (m' p) \<and> \<not> reachable (?m1 p) \<longrightarrow> p \<in> set pushed"
      by blast
    have "\<exists>pushed. q' = q @ pushed \<and> set pushed \<subseteq> {x \<in> set (n # ns). ok x}
           \<and> (\<forall>p. reachable (m' p) \<and> \<not> reachable (m p) \<longrightarrow> p \<in> set pushed)"
    proof (intro exI [of _ "n # pushed"] conjI allI impI)
      show "q' = q @ n # pushed" using pu(1) by simp
      show "set (n # pushed) \<subseteq> {x \<in> set (n # ns). ok x}" using pu(2) True by auto
      fix p assume a: "reachable (m' p) \<and> \<not> reachable (m p)"
      show "p \<in> set (n # pushed)"
      proof (cases "p = n")
        case True
        then show ?thesis by simp
      next
        case False
        with a have "reachable (m' p) \<and> \<not> reachable (?m1 p)" by (simp only: r1) simp
        with pu(3) have "p \<in> set pushed" by blast
        then show ?thesis by simp
      qed
    qed
    moreover have "2 * card {p \<in> G. \<not> reachable (m' p)} + length q'
         \<le> 2 * card {p \<in> G. \<not> reachable (m p)} + length q"
    proof -
      have e: "{p \<in> G. \<not> reachable (?m1 p)} = {p \<in> G. \<not> reachable (m p)} - {n}"
        by auto
      let ?U = "{p \<in> G. \<not> reachable (m p)}"
      have nU: "n \<in> ?U" using nG True by simp
      have fU: "finite ?U" using assms by simp
      from nU have c1: "card (?U - {n}) = card ?U - 1" by (rule card_Diff_singleton)
      from fU nU have "?U \<noteq> {}" by blast
      with fU have "0 < card ?U" by (simp only: card_gt_0_iff) simp
      with c1 have "card {p \<in> G. \<not> reachable (?m1 p)} + 1 = card ?U"
        unfolding e by arith
      moreover from ih have "2 * card {p \<in> G. \<not> reachable (m' p)} + length q'
         \<le> 2 * card {p \<in> G. \<not> reachable (?m1 p)} + length ?q1" by blast
      ultimately show ?thesis by simp
    qed
    ultimately show ?thesis by blast
  qed
qed

lemma checker_Nil: "IterativeReachableNodeChecker ok nb [] m = Some m"
  by (simp add: IterativeReachableNodeChecker.simps)

lemma checker_Cons:
  "IterativeReachableNodeChecker ok nb (c # r) m =
     (case checkNeighbours ok (nb c) (m, c # r) of
        (m', q') \<Rightarrow> IterativeReachableNodeChecker ok nb (tl q') m')"
  by (subst IterativeReachableNodeChecker.simps) simp

lemma checker_correct:
  assumes fin: "finite G" and nbG: "\<forall>p\<in>G. set (nb p) \<subseteq> G"
    and Rstep: "\<forall>p n. R p \<longrightarrow> n \<in> set (nb p) \<longrightarrow> ok n \<longrightarrow> R n"
  shows "set q \<subseteq> G \<Longrightarrow> \<forall>p\<in>G. failed_penalty (m p) = 0 \<Longrightarrow>
     \<forall>p\<in>set q. reachable (m p) \<Longrightarrow>
     \<forall>p\<in>G. reachable (m p) \<longrightarrow> R p \<Longrightarrow>
     \<forall>p\<in>G. F p \<longrightarrow> reachable (m p) \<Longrightarrow>
     \<forall>p\<in>G. reachable (m p) \<longrightarrow> p \<in> set q \<or> (\<forall>n\<in>set (nb p). ok n \<longrightarrow> reachable (m n)) \<Longrightarrow>
     \<exists>m'. IterativeReachableNodeChecker ok nb q m = Some m'
        \<and> (\<forall>p\<in>G. failed_penalty (m' p) = 0)
        \<and> (\<forall>p\<in>G. reachable (m' p) \<longrightarrow> R p)
        \<and> (\<forall>p\<in>G. F p \<longrightarrow> reachable (m' p))
        \<and> (\<forall>p\<in>G. reachable (m' p) \<longrightarrow> (\<forall>n\<in>set (nb p). ok n \<longrightarrow> reachable (m' n)))"
proof (induction "2 * card {p \<in> G. \<not> reachable (m p)} + length q" arbitrary: q m rule: less_induct)
  case less
  show ?case
  proof (cases q)
    case Nil
    with less.prems show ?thesis by (simp add: checker_Nil)
  next
    case (Cons c r)
    obtain m1 q1 where cn: "checkNeighbours ok (nb c) (m, q) = (m1, q1)"
      by (cases "checkNeighbours ok (nb c) (m, q)")
    from less.prems(1) Cons have cG: "c \<in> G" by simp
    with nbG have nbc: "set (nb c) \<subseteq> G" by blast
    note res = checkNeighbours_result [OF fin nbc less.prems(2) cn]
    from res have pen1: "\<forall>p\<in>G. failed_penalty (m1 p) = 0" by blast
    from res have reach1: "\<And>p. reachable (m1 p) = (reachable (m p) \<or> (p \<in> set (nb c) \<and> ok p))"
      by blast
    from res obtain pushed where pu: "q1 = q @ pushed" "set pushed \<subseteq> {n \<in> set (nb c). ok n}"
      "\<forall>p. reachable (m1 p) \<and> \<not> reachable (m p) \<longrightarrow> p \<in> set pushed"
      by blast
    from res have mu: "2 * card {p \<in> G. \<not> reachable (m1 p)} + length q1
         \<le> 2 * card {p \<in> G. \<not> reachable (m p)} + length q" by blast
    have tl1: "tl q1 = r @ pushed" using pu(1) Cons by simp
    have step: "IterativeReachableNodeChecker ok nb q m
        = IterativeReachableNodeChecker ok nb (tl q1) m1"
      using cn by (simp add: Cons checker_Cons)
    have less': "2 * card {p \<in> G. \<not> reachable (m1 p)} + length (tl q1)
        < 2 * card {p \<in> G. \<not> reachable (m p)} + length q"
      using mu pu(1) Cons by simp
    have cR: "R c" using less.prems(3) less.prems(4) cG Cons by simp
    have a1: "set (tl q1) \<subseteq> G"
      using less.prems(1) Cons pu(2) nbc by (auto simp: tl1)
    have a3: "\<forall>p\<in>set (tl q1). reachable (m1 p)"
    proof
      fix p assume "p \<in> set (tl q1)"
      then have "p \<in> set r \<or> p \<in> set pushed" by (simp add: tl1)
      then show "reachable (m1 p)"
      proof
        assume "p \<in> set r"
        with less.prems(3) Cons have "reachable (m p)" by simp
        then show ?thesis by (simp add: reach1)
      next
        assume "p \<in> set pushed"
        with pu(2) have "p \<in> set (nb c) \<and> ok p" by blast
        then show ?thesis by (simp add: reach1)
      qed
    qed
    have a4: "\<forall>p\<in>G. reachable (m1 p) \<longrightarrow> R p"
    proof (intro ballI impI)
      fix p assume pG: "p \<in> G" and "reachable (m1 p)"
      then have "reachable (m p) \<or> (p \<in> set (nb c) \<and> ok p)" by (simp add: reach1)
      then show "R p"
      proof
        assume "reachable (m p)"
        with less.prems(4) pG show ?thesis by blast
      next
        assume "p \<in> set (nb c) \<and> ok p"
        with cR Rstep show ?thesis by blast
      qed
    qed
    have a5: "\<forall>p\<in>G. F p \<longrightarrow> reachable (m1 p)"
      using less.prems(5) by (simp add: reach1)
    have a6: "\<forall>p\<in>G. reachable (m1 p) \<longrightarrow>
        p \<in> set (tl q1) \<or> (\<forall>n\<in>set (nb p). ok n \<longrightarrow> reachable (m1 n))"
    proof (intro ballI impI)
      fix p assume pG: "p \<in> G" and r1: "reachable (m1 p)"
      show "p \<in> set (tl q1) \<or> (\<forall>n\<in>set (nb p). ok n \<longrightarrow> reachable (m1 n))"
      proof (cases "reachable (m p)")
        case False
        with r1 pu(3) have "p \<in> set pushed" by blast
        then show ?thesis by (simp add: tl1)
      next
        case True
        with less.prems(6) pG
        have "p \<in> set q \<or> (\<forall>n\<in>set (nb p). ok n \<longrightarrow> reachable (m n))" by blast
        then show ?thesis
        proof
          assume "p \<in> set q"
          then have "p = c \<or> p \<in> set r" by (simp add: Cons)
          then show ?thesis
          proof
            assume "p = c"
            then have "\<forall>n\<in>set (nb p). ok n \<longrightarrow> reachable (m1 n)" by (simp add: reach1)
            then show ?thesis ..
          next
            assume "p \<in> set r"
            then show ?thesis by (simp add: tl1)
          qed
        next
          assume "\<forall>n\<in>set (nb p). ok n \<longrightarrow> reachable (m n)"
          then have "\<forall>n\<in>set (nb p). ok n \<longrightarrow> reachable (m1 n)" by (simp add: reach1)
          then show ?thesis ..
        qed
      qed
    qed
    from less.hyps [OF less' a1 pen1 a3 a4 a5 a6] show ?thesis
      by (simp only: step)
  qed
qed

text \<open>
  Claim C6. On a map whose neighbour function stays on the map, \<^verbatim>\<open>InitReachableNodes\<close>
  ends, and afterwards the reachable flag of a tile of the map is set exactly when the
  tile holds a flag of this player or can be reached from such a tile through a chain of
  neighbours that each satisfy the road path condition; on all other tiles it is cleared.
  All failure penalties are zero.
\<close>

theorem C6_reachable_flood:
  assumes nbG: "\<forall>p\<in>set (gridPoints w h). set (nb p) \<subseteq> set (gridPoints w h)"
  shows "\<exists>m'. InitReachableNodes w h myFlag ok nb m = Some m'
           \<and> (\<forall>p\<in>set (gridPoints w h). reachable (m' p) = roadReachable w h myFlag ok nb p)
           \<and> (\<forall>p\<in>set (gridPoints w h). failed_penalty (m' p) = 0)"
proof -
  let ?G = "set (gridPoints w h)"
  let ?R = "roadReachable w h myFlag ok nb"
  obtain m1 q1 where rs: "resetNodes myFlag (gridPoints w h) (m, []) = (m1, q1)"
    by (cases "resetNodes myFlag (gridPoints w h) (m, [])")
  from resetNodes_result [OF rs]
  have q1: "q1 = filter myFlag (gridPoints w h)"
    and m1: "\<forall>p\<in>?G. reachable (m1 p) = myFlag p \<and> failed_penalty (m1 p) = 0"
    by simp_all
  have i1: "set q1 \<subseteq> ?G" by (auto simp: q1)
  have i2: "\<forall>p\<in>?G. failed_penalty (m1 p) = 0" using m1 by blast
  have i3: "\<forall>p\<in>set q1. reachable (m1 p)" using m1 by (auto simp: q1)
  have i4: "\<forall>p\<in>?G. reachable (m1 p) \<longrightarrow> ?R p"
    using m1 by (blast intro: roadReachable.anchor)
  have i5: "\<forall>p\<in>?G. myFlag p \<longrightarrow> reachable (m1 p)" using m1 by blast
  have i6: "\<forall>p\<in>?G. reachable (m1 p) \<longrightarrow>
      p \<in> set q1 \<or> (\<forall>n\<in>set (nb p). ok n \<longrightarrow> reachable (m1 n))"
    using m1 by (auto simp: q1)
  have fin: "finite ?G" by simp
  have Rs: "\<forall>p n. ?R p \<longrightarrow> n \<in> set (nb p) \<longrightarrow> ok n \<longrightarrow> ?R n"
    by (blast intro: roadReachable.step)
  from checker_correct [where R = ?R and F = myFlag, OF fin nbG Rs i1 i2 i3 i4 i5 i6]
  obtain m' where run: "IterativeReachableNodeChecker ok nb q1 m1 = Some m'"
    and pen: "\<forall>p\<in>?G. failed_penalty (m' p) = 0"
    and sound: "\<forall>p\<in>?G. reachable (m' p) \<longrightarrow> ?R p"
    and flags: "\<forall>p\<in>?G. myFlag p \<longrightarrow> reachable (m' p)"
    and closed: "\<forall>p\<in>?G. reachable (m' p) \<longrightarrow> (\<forall>n\<in>set (nb p). ok n \<longrightarrow> reachable (m' n))"
    by blast
  have complete: "?R p \<Longrightarrow> p \<in> ?G \<and> reachable (m' p)" for p
  proof (induction rule: roadReachable.induct)
    case (anchor pt)
    with flags show ?case by blast
  next
    case (step pt n)
    from step.IH nbG step.hyps(2) have "n \<in> ?G" by blast
    moreover from step.IH closed step.hyps(2,3) have "reachable (m' n)" by blast
    ultimately show ?case ..
  qed
  have init: "InitReachableNodes w h myFlag ok nb m = Some m'"
    by (simp add: InitReachableNodes_def rs run)
  have "\<forall>p\<in>?G. reachable (m' p) = ?R p"
    using sound complete by blast
  with init pen show ?thesis by blast
qed

lemma gridPoints_4_1: "gridPoints 4 (Suc 0) = [(0, 0), (1, 0), (2, 0), (3, 0)]"
  by (simp add: gridPoints_def upt_rec)

theorem C6_reachable_flood_witness:
  "(\<exists>m'. InitReachableNodes 4 1 (\<lambda>pt. pt = (0, 0)) (\<lambda>pt. pt = (1, 0)) ringNeighbours staleMap
            = Some m'
        \<and> reachable (m' (0, 0)) \<and> reachable (m' (1, 0))
        \<and> \<not> reachable (m' (2, 0)) \<and> \<not> reachable (m' (3, 0)))
   \<and> roadReachable 4 1 (\<lambda>pt. pt = (0, 0)) (\<lambda>pt. pt = (1, 0)) ringNeighbours (1, 0)
   \<and> \<not> roadReachable 4 1 (\<lambda>pt. pt = (0, 0)) (\<lambda>pt. pt = (1, 0)) ringNeighbours (3, 0)"
proof -
  let ?flag = "\<lambda>pt::MapPoint. pt = (0, 0)" and ?ok = "\<lambda>pt::MapPoint. pt = (1, 0)"
  have nb: "\<forall>p\<in>set (gridPoints 4 1). set (ringNeighbours p) \<subseteq> set (gridPoints 4 1)"
    by (auto simp: gridPoints_set ringNeighbours_def)
  from C6_reachable_flood [OF nb, of ?flag ?ok staleMap]
  obtain m' where run: "InitReachableNodes 4 1 ?flag ?ok ringNeighbours staleMap = Some m'"
    and iff: "\<forall>p\<in>set (gridPoints 4 1).
                reachable (m' p) = roadReachable 4 1 ?flag ?ok ringNeighbours p"
    by blast
  have ev: "\<exists>m'. InitReachableNodes 4 1 ?flag ?ok ringNeighbours staleMap = Some m'
        \<and> reachable (m' (0, 0)) \<and> reachable (m' (1, 0))
        \<and> \<not> reachable (m' (2, 0)) \<and> \<not> reachable (m' (3, 0))"
    by (simp add: InitReachableNodes_def gridPoints_4_1 staleMap_def checker_Cons checker_Nil
        ringNeighbours_def Let_def)
  with run have vals: "reachable (m' (1, 0))" "\<not> reachable (m' (3, 0))" by auto
  from iff have "reachable (m' (1, 0)) = roadReachable 4 1 ?flag ?ok ringNeighbours (1, 0)"
    and "reachable (m' (3, 0)) = roadReachable 4 1 ?flag ?ok ringNeighbours (3, 0)"
    by (simp_all add: gridPoints_4_1)
  with vals ev show ?thesis by simp
qed

end
